theory Spec2Isabelle
  imports Complex_Main
begin

section \<open>Numbers, vectors and errors\<close>

text \<open>
  The program prices a European option with an explicit finite-difference scheme for the
  Black-Scholes equation. This theory embeds the class \<^verbatim>\<open>FiniteDifferencePricer\<close>
  of \<^verbatim>\<open>code.cpp\<close> member by member.

  In the embedding of the whole pricer a C++ \<^verbatim>\<open>double\<close> is modelled as a
  \<^typ>\<open>real\<close>: arithmetic is exact, there is no rounding, no overflow to an infinity and
  no NaN. The theorems about the solver, the evaluation at the spot price and the whole run
  are theorems about this exact arithmetic. Grid sizing and the stability check, whose
  properties depend on rounding, overflow and NaN, are embedded a second time over the
  values of the binary64 format, in a section of their own. In the exact embedding a quotient with divisor zero has no counterpart here (IEEE
  arithmetic gives an infinity or a NaN, HOL gives \<open>0\<close>), so a theorem that depends on
  the value of a quotient assumes what input validation establishes: a positive strike, a
  positive volatility, and a nonzero number of spatial steps.

  A C++ \<^verbatim>\<open>int\<close> is a 32-bit signed integer, modelled as an \<^typ>\<open>int\<close> with
  the range from \<open>INT_MIN\<close> to \<open>INT_MAX\<close> checked where the program computes a new
  integer: signed overflow, and a conversion from floating point whose result is not
  representable, are undefined behaviour in C++ and are values of type \<open>error\<close> here.

  A \<^verbatim>\<open>std::vector<double>\<close> is a list. \<^verbatim>\<open>operator[]\<close> does not check its
  index; an index outside the vector is the error \<open>OutOfBounds\<close>. A vector created with
  a negative \<^verbatim>\<open>int\<close> length (converted to an unsigned size far above
  \<^verbatim>\<open>max_size()\<close>) is the error \<open>LengthError\<close>. Memory is not bounded.
\<close>

datatype error = OutOfBounds | CastOverflow | IntOverflow | LengthError

definition INT_MAX :: int where
  "INT_MAX = 2147483647"

definition INT_MIN :: int where
  "INT_MIN = - 2147483648"

definition int_add :: "int \<Rightarrow> int \<Rightarrow> error + int" where
  "int_add a b = (if INT_MIN \<le> a + b \<and> a + b \<le> INT_MAX then Inr (a + b) else Inl IntOverflow)"

text \<open>\<^verbatim>\<open>static_cast<int>(x)\<close> truncates toward zero.\<close>

definition static_cast_int :: "real \<Rightarrow> error + int" where
  "static_cast_int x =
     (let t = (if 0 \<le> x then \<lfloor>x\<rfloor> else \<lceil>x\<rceil>)
      in if INT_MIN \<le> t \<and> t \<le> INT_MAX then Inr t else Inl CastOverflow)"

text \<open>
  \<^verbatim>\<open>std::min(a, b)\<close> is \<^verbatim>\<open>(b < a) ? b : a\<close> and \<^verbatim>\<open>std::max(a, b)\<close> is
  \<^verbatim>\<open>(a < b) ? b : a\<close>.
\<close>

definition std_min :: "real \<Rightarrow> real \<Rightarrow> real" where
  "std_min a b = (if b < a then b else a)"

definition std_max :: "real \<Rightarrow> real \<Rightarrow> real" where
  "std_max a b = (if a < b then b else a)"

definition vector_new :: "int \<Rightarrow> real \<Rightarrow> error + real list" where
  "vector_new n v = (if n < 0 then Inl LengthError else Inr (replicate (nat n) v))"

definition load :: "real list \<Rightarrow> int \<Rightarrow> error + real" where
  "load v i = (if 0 \<le> i \<and> i < int (length v) then Inr (v ! nat i) else Inl OutOfBounds)"

definition store :: "real list \<Rightarrow> int \<Rightarrow> real \<Rightarrow> error + real list" where
  "store v i x = (if 0 \<le> i \<and> i < int (length v) then Inr (v[nat i := x]) else Inl OutOfBounds)"

section \<open>The pricer\<close>

record Parameters =
  type :: real
  S0 :: real
  K :: real
  r :: real
  sigma :: real
  T :: real

record FiniteDifferencePricer =
  params :: Parameters
  Smax :: real
  N :: int
  M :: int
  dS :: real
  dt :: real
  U :: "real list"

text \<open>
  The constructor leaves \<^verbatim>\<open>dS\<close> and \<^verbatim>\<open>dt\<close> uninitialised; their indeterminate
  values are the arguments \<open>dS0\<close> and \<open>dt0\<close>.
\<close>

definition FiniteDifferencePricer_init :: "Parameters \<Rightarrow> real \<Rightarrow> real \<Rightarrow> FiniteDifferencePricer" where
  "FiniteDifferencePricer_init p dS0 dt0 =
     \<lparr>params = p, Smax = 4.0 * K p, N = 50, M = 2000, dS = dS0, dt = dt0, U = []\<rparr>"

text \<open>
  The aggregate \<^verbatim>\<open>Parameters params{100.0, 135.0, 0.05, 0.2, 1.0}\<close> of
  \<^verbatim>\<open>main\<close> gives five values for six members: they initialise the first five
  members in declaration order and the last one is zero.
\<close>

definition main_params :: Parameters where
  "main_params = \<lparr>type = 100.0, S0 = 135.0, K = 0.05, r = 0.2, sigma = 1.0, T = 0\<rparr>"

definition call_payoff :: "real \<Rightarrow> real \<Rightarrow> real" where
  "call_payoff S k = std_max (S - k) 0.0"

subsection \<open>Input\<close>

text \<open>
  Standard input is the list of the numbers it holds, followed by the end of input. Each
  member is read by a loop \<^verbatim>\<open>do { std::cin >> v; ... } while (v is not valid)\<close>.
  At the end of input the extraction fails and leaves \<open>v\<close> as it was, so the loop ends
  when the value \<open>v\<close> already holds is valid and never ends otherwise (the result
  \<open>None\<close>).
\<close>

fun read_until :: "(real \<Rightarrow> bool) \<Rightarrow> real \<Rightarrow> real list \<Rightarrow> (real \<times> real list) option" where
  "read_until ok v [] = (if ok v then Some (v, []) else None)"
| "read_until ok v (x # xs) = (if ok x then Some (x, xs) else read_until ok x xs)"

definition inputParameters ::
  "real list \<Rightarrow> FiniteDifferencePricer \<Rightarrow> (FiniteDifferencePricer \<times> real list) option" where
  "inputParameters cin s =
     (case read_until (\<lambda>v. \<not> (v \<noteq> 0 \<and> v \<noteq> 1)) (type (params s)) cin of None \<Rightarrow> None
      | Some (v1, cin1) \<Rightarrow>
     (case read_until (\<lambda>v. \<not> v \<le> 0) (S0 (params s)) cin1 of None \<Rightarrow> None
      | Some (v2, cin2) \<Rightarrow>
     (case read_until (\<lambda>v. \<not> v \<le> 0) (K (params s)) cin2 of None \<Rightarrow> None
      | Some (v3, cin3) \<Rightarrow>
     (case read_until (\<lambda>v. \<not> (v < 0 \<or> v > 1)) (r (params s)) cin3 of None \<Rightarrow> None
      | Some (v4, cin4) \<Rightarrow>
     (case read_until (\<lambda>v. \<not> (v \<le> 0 \<or> v > 1)) (sigma (params s)) cin4 of None \<Rightarrow> None
      | Some (v5, cin5) \<Rightarrow>
     (case read_until (\<lambda>v. \<not> v \<le> 0) (T (params s)) cin5 of None \<Rightarrow> None
      | Some (v6, cin6) \<Rightarrow>
        Some (s\<lparr>params := \<lparr>type = v1, S0 = v2, K = v3, r = v4, sigma = v5, T = v6\<rparr>,
                 Smax := 4.0 * v3\<rparr>, cin6)))))))"

subsection \<open>Grid sizing\<close>

text \<open>
  \<open>mode\<close> is the integer that \<^verbatim>\<open>chooseMode\<close> returns and \<open>Nin\<close> the integer that
  \<^verbatim>\<open>std::cin >> N\<close> delivers in mode 3; neither is validated by the program.
\<close>

text \<open>The \<^verbatim>\<open>switch (mode)\<close>: the value it gives to \<open>N\<close>.\<close>

definition configured_N :: "int \<Rightarrow> int \<Rightarrow> int" where
  "configured_N mode Nin =
     (if mode = 1 then 2000 else if mode = 2 then 100 else if mode = 3 then Nin else 100)"

definition configureMode :: "int \<Rightarrow> int \<Rightarrow> FiniteDifferencePricer \<Rightarrow> error + FiniteDifferencePricer" where
  "configureMode mode Nin s =
     (let N' = configured_N mode Nin;
          M_target = (100 :: int);
          dt_max = T (params s) / of_int M_target;
          dS' = Smax s / of_int N';
          dt' = std_min ((dS' * dS') / (sigma (params s) * sigma (params s) * Smax s * Smax s)) dt_max
      in case static_cast_int (T (params s) / dt') of Inl e \<Rightarrow> Inl e
         | Inr c \<Rightarrow>
        (case int_add c 1 of Inl e \<Rightarrow> Inl e
         | Inr M' \<Rightarrow> Inr (s\<lparr>N := N', dS := dS', dt := dt', M := M'\<rparr>)))"

definition checkStability :: "FiniteDifferencePricer \<Rightarrow> bool" where
  "checkStability s =
     (dt s \<le> dS s * dS s / (sigma (params s) * sigma (params s) * Smax s * Smax s))"

subsection \<open>The solver\<close>

text \<open>The loop \<^verbatim>\<open>for (int j = 0; j <= N; j++)\<close> that writes the payoff at maturity.\<close>

function init_loop :: "int \<Rightarrow> FiniteDifferencePricer \<Rightarrow> error + FiniteDifferencePricer" where
  "init_loop j s =
     (if j \<le> N s then
        (case store (U s) j (call_payoff (of_int j * dS s) (K (params s))) of Inl e \<Rightarrow> Inl e
         | Inr u \<Rightarrow> init_loop (j + 1) (s\<lparr>U := u\<rparr>))
      else Inr s)"
  by pat_completeness auto
termination
  by (relation "measure (\<lambda>(j, s). nat (N s + 1 - j))") auto

text \<open>The loop \<^verbatim>\<open>for (int j = 1; j < N; j++)\<close> over the interior indices.\<close>

function inner_loop :: "int \<Rightarrow> real list \<Rightarrow> FiniteDifferencePricer \<Rightarrow> error + FiniteDifferencePricer" where
  "inner_loop j U_old s =
     (if j < N s then
        (let S = of_int j * dS s;
             alpha = (sigma (params s) * sigma (params s) * S * S * dt s) / (2.0 * dS s * dS s);
             beta = (r (params s) * S * dt s) / (2.0 * dS s);
             a = alpha - beta;
             b = 1.0 - r (params s) * dt s - 2.0 * alpha;
             c = alpha + beta
         in case load U_old (j - 1) of Inl e \<Rightarrow> Inl e
            | Inr um \<Rightarrow>
           (case load U_old j of Inl e \<Rightarrow> Inl e
            | Inr u0 \<Rightarrow>
           (case load U_old (j + 1) of Inl e \<Rightarrow> Inl e
            | Inr up \<Rightarrow>
           (case store (U s) j (a * um + b * u0 + c * up) of Inl e \<Rightarrow> Inl e
            | Inr u \<Rightarrow> inner_loop (j + 1) U_old (s\<lparr>U := u\<rparr>)))))
      else Inr s)"
  by pat_completeness auto
termination
  by (relation "measure (\<lambda>(j, U_old, s). nat (N s - j))") auto

text \<open>
  The body of the loop over \<open>m\<close>: it copies \<open>U\<close> to \<open>U_old\<close>, updates the interior and
  sets the two boundary values. It returns the new state and the new \<open>U_old\<close>.
\<close>

definition time_step ::
  "int \<Rightarrow> FiniteDifferencePricer \<Rightarrow> error + (FiniteDifferencePricer \<times> real list)" where
  "time_step m s =
     (let U_old = U s
      in case inner_loop 1 U_old s of Inl e \<Rightarrow> Inl e
         | Inr s1 \<Rightarrow>
        (case store (U s1) 0 0.0 of Inl e \<Rightarrow> Inl e
         | Inr u0 \<Rightarrow>
        (let tau = T (params s1) - of_int (m - 1) * dt s1
         in case store u0 (N s1) (Smax s1 - K (params s1) * exp (- r (params s1) * tau)) of
              Inl e \<Rightarrow> Inl e
            | Inr uN \<Rightarrow> Inr (s1\<lparr>U := uN\<rparr>, U_old))))"

text \<open>The loop \<^verbatim>\<open>for (int m = M; m > 0; m--)\<close>.\<close>

function time_loop :: "int \<Rightarrow> real list \<Rightarrow> FiniteDifferencePricer \<Rightarrow> error + FiniteDifferencePricer" where
  "time_loop m U_old s =
     (if m > 0 then
        (case time_step m s of Inl e \<Rightarrow> Inl e
         | Inr (s', U_old') \<Rightarrow> time_loop (m - 1) U_old' s')
      else Inr s)"
  by pat_completeness auto
termination
  by (relation "measure (\<lambda>(m, U_old, s). nat m)") auto

text \<open>The grid at maturity: both vectors are created and \<open>U\<close> is filled with the payoff.\<close>

definition initial_grid :: "FiniteDifferencePricer \<Rightarrow> error + (FiniteDifferencePricer \<times> real list)" where
  "initial_grid s =
     (case int_add (N s) 1 of Inl e \<Rightarrow> Inl e
      | Inr n1 \<Rightarrow>
     (case vector_new n1 0.0 of Inl e \<Rightarrow> Inl e
      | Inr u \<Rightarrow>
     (case vector_new n1 0.0 of Inl e \<Rightarrow> Inl e
      | Inr U_old \<Rightarrow>
     (case init_loop 0 (s\<lparr>U := u\<rparr>) of Inl e \<Rightarrow> Inl e
      | Inr s1 \<Rightarrow> Inr (s1, U_old)))))"

definition computeCallOptionPrice :: "FiniteDifferencePricer \<Rightarrow> error + FiniteDifferencePricer" where
  "computeCallOptionPrice s =
     (case initial_grid s of Inl e \<Rightarrow> Inl e
      | Inr (s1, U_old) \<Rightarrow> time_loop (M s1) U_old s1)"

subsection \<open>Evaluation at the spot price\<close>

definition price_call :: "FiniteDifferencePricer \<Rightarrow> int \<Rightarrow> real \<Rightarrow> error + real" where
  "price_call s j0 w =
     (if j0 \<ge> 0 \<and> j0 < N s then
        (case load (U s) j0 of Inl e \<Rightarrow> Inl e
         | Inr u0 \<Rightarrow>
        (case load (U s) (j0 + 1) of Inl e \<Rightarrow> Inl e
         | Inr up \<Rightarrow> Inr ((1.0 - w) * u0 + w * up)))
      else load (U s) j0)"

definition Delta_call :: "FiniteDifferencePricer \<Rightarrow> int \<Rightarrow> error + real" where
  "Delta_call s j0 =
     (if j0 > 0 \<and> j0 < N s then
        (case load (U s) (j0 + 1) of Inl e \<Rightarrow> Inl e
         | Inr up \<Rightarrow>
        (case load (U s) (j0 - 1) of Inl e \<Rightarrow> Inl e
         | Inr um \<Rightarrow> Inr ((up - um) / (2.0 * dS s))))
      else Inr 0.0)"

definition Gamma :: "FiniteDifferencePricer \<Rightarrow> int \<Rightarrow> error + real" where
  "Gamma s j0 =
     (if j0 > 0 \<and> j0 < N s then
        (case load (U s) (j0 + 1) of Inl e \<Rightarrow> Inl e
         | Inr up \<Rightarrow>
        (case load (U s) j0 of Inl e \<Rightarrow> Inl e
         | Inr u0 \<Rightarrow>
        (case load (U s) (j0 - 1) of Inl e \<Rightarrow> Inl e
         | Inr um \<Rightarrow> Inr ((up - 2.0 * u0 + um) / (dS s * dS s)))))
      else Inr 0.0)"

text \<open>The three numbers that \<^verbatim>\<open>displayResults\<close> prints: price, Delta, Gamma.\<close>

definition displayResults :: "FiniteDifferencePricer \<Rightarrow> error + (real \<times> real \<times> real)" where
  "displayResults s =
     (let S0_index = S0 (params s) / dS s
      in case static_cast_int (of_int \<lfloor>S0_index\<rfloor>) of Inl e \<Rightarrow> Inl e
         | Inr j0 \<Rightarrow>
        (let w = S0_index - of_int j0
         in case price_call s j0 w of Inl e \<Rightarrow> Inl e
            | Inr pc \<Rightarrow>
           (case Delta_call s j0 of Inl e \<Rightarrow> Inl e
            | Inr dc \<Rightarrow>
           (case Gamma s j0 of Inl e \<Rightarrow> Inl e
            | Inr g \<Rightarrow>
              (if type (params s) = 0 then
                 Inr (pc - S0 (params s) + K (params s) * exp (- r (params s) * T (params s)),
                      dc - 1, g)
               else Inr (pc, dc, g))))))"

subsection \<open>The whole run\<close>

datatype outcome = StabilityError | Results real real real

definition run :: "FiniteDifferencePricer \<Rightarrow> real list \<Rightarrow> int \<Rightarrow> int \<Rightarrow> (error + outcome) option" where
  "run s cin mode Nin =
     (case inputParameters cin s of None \<Rightarrow> None
      | Some (s1, rest) \<Rightarrow>
        Some (case configureMode mode Nin s1 of Inl e \<Rightarrow> Inl e
              | Inr s2 \<Rightarrow>
                (if \<not> checkStability s2 then Inr StabilityError
                 else (case computeCallOptionPrice s2 of Inl e \<Rightarrow> Inl e
                       | Inr s3 \<Rightarrow>
                      (case displayResults s3 of Inl e \<Rightarrow> Inl e
                       | Inr (price, Delta, gam) \<Rightarrow> Inr (Results price Delta gam))))))"

definition main_program :: "real \<Rightarrow> real \<Rightarrow> real list \<Rightarrow> int \<Rightarrow> int \<Rightarrow> (error + outcome) option" where
  "main_program dS0 dt0 cin mode Nin = run (FiniteDifferencePricer_init main_params dS0 dt0) cin mode Nin"

section \<open>Grid sizing in binary64 arithmetic\<close>

text \<open>
  Whether the stability inequality and the minimum time resolution hold depends on how the
  products and quotients of \<^verbatim>\<open>configureMode\<close> are rounded, and on what they are when
  they overflow. This section embeds \<^verbatim>\<open>configureMode\<close> and \<^verbatim>\<open>checkStability\<close> a
  second time, over the values of the IEEE 754 binary64 format of a \<^verbatim>\<open>double\<close>: each
  multiplication and each division is rounded once, to the nearest binary64 number with ties
  to even; a result that rounds to \<open>2 ^ 1024\<close> or more in magnitude is an infinity; zero by
  zero, infinity by infinity and zero times infinity are NaN; every comparison with NaN is
  false. Every operation is taken to be evaluated in binary64 itself, with no intermediate
  result of a larger precision; the conversion of the \<^verbatim>\<open>int\<close> values \<open>N\<close> and
  \<open>M_target\<close> to \<^verbatim>\<open>double\<close> is exact.

  A value is a real number, one of the two infinities, or NaN. The two zeros are not
  distinguished, and a zero divisor is taken to be \<open>+0\<close>: with a positive maturity,
  volatility and price ceiling every divisor of grid sizing is a converted integer or a
  product or quotient of values that are not negative, so no divisor is \<open>-0\<close>.
\<close>

datatype double = Finite real | PInf | NInf | NaN

subsection \<open>Rounding\<close>

text \<open>The integer nearest to \<open>x\<close>, the even one of the two when \<open>x\<close> is halfway.\<close>

definition round_even :: "real \<Rightarrow> int" where
  "round_even x =
     (let f = \<lfloor>x\<rfloor>; d = x - of_int f
      in if d < 1 / 2 then f else if 1 / 2 < d then f + 1 else if even f then f else f + 1)"

text \<open>
  \<open>pow2 e\<close> is \<open>2 ^ e\<close> for an integer exponent \<open>e\<close>, and \<open>exponent_up e x\<close> is the
  largest exponent \<open>k \<ge> e\<close> with \<open>2 ^ k \<le> x\<close>, or \<open>e\<close> when there is none. The
  binade of \<open>x\<close> is the exponent \<open>k\<close> with \<open>2 ^ k \<le> \<bar>x\<bar> < 2 ^ (k + 1)\<close>, and \<open>-1022\<close>
  for the subnormal numbers below \<open>2 ^ (- 1022)\<close>. The binary64 numbers with this exponent
  are the integer multiples of \<open>2 ^ (k - 52)\<close>, so rounding \<open>x\<close> is rounding
  \<open>x / 2 ^ (k - 52)\<close> to an integer.
\<close>

definition pow2 :: "int \<Rightarrow> real" where
  "pow2 e = (if 0 \<le> e then 2 ^ nat e else 1 / 2 ^ nat (- e))"

function exponent_up :: "int \<Rightarrow> real \<Rightarrow> int" where
  "exponent_up e x = (if pow2 (e + 1) \<le> x then exponent_up (e + 1) x else e)"
  by pat_completeness auto
termination
proof (relation "measure (\<lambda>(e, x). nat (\<lfloor>log 2 x\<rfloor> - e))")
  show "wf (measure (\<lambda>(e, x). nat (\<lfloor>log 2 x\<rfloor> - e)))" by simp
next
  fix e :: int and x :: real
  assume a: "pow2 (e + 1) \<le> x"
  have p: "pow2 k = 2 powr of_int k" for k
    by (simp add: pow2_def powr_int)
  have "(0::real) < 2 powr of_int (e + 1)" by simp
  then have x: "0 < x" using a unfolding p by (rule less_le_trans)
  have "of_int (e + 1) \<le> log 2 x"
    using a x unfolding p by (simp add: le_log_iff)
  then have "e + 1 \<le> \<lfloor>log 2 x\<rfloor>" by (simp only: le_floor_iff)
  then show "((e + 1, x), (e, x)) \<in> measure (\<lambda>(e, x). nat (\<lfloor>log 2 x\<rfloor> - e))"
    by simp
qed

definition binade :: "real \<Rightarrow> int" where
  "binade x = exponent_up (- 1022) \<bar>x\<bar>"

definition round_real :: "real \<Rightarrow> real" where
  "round_real x =
     (if x = 0 then 0
      else of_int (round_even (x / pow2 (binade x - 52))) * pow2 (binade x - 52))"

definition round64 :: "real \<Rightarrow> double" where
  "round64 x =
     (let y = round_real x
      in if 2 ^ 1024 \<le> y then PInf else if y \<le> - (2 ^ 1024) then NInf else Finite y)"

subsection \<open>Operations on doubles\<close>

fun double_mul :: "double \<Rightarrow> double \<Rightarrow> double" where
  "double_mul (Finite a) (Finite b) = round64 (a * b)"
| "double_mul (Finite a) PInf = (if a = 0 then NaN else if 0 < a then PInf else NInf)"
| "double_mul (Finite a) NInf = (if a = 0 then NaN else if 0 < a then NInf else PInf)"
| "double_mul PInf (Finite b) = (if b = 0 then NaN else if 0 < b then PInf else NInf)"
| "double_mul NInf (Finite b) = (if b = 0 then NaN else if 0 < b then NInf else PInf)"
| "double_mul PInf PInf = PInf"
| "double_mul PInf NInf = NInf"
| "double_mul NInf PInf = NInf"
| "double_mul NInf NInf = PInf"
| "double_mul NaN b = NaN"
| "double_mul a NaN = NaN"

fun double_div :: "double \<Rightarrow> double \<Rightarrow> double" where
  "double_div (Finite a) (Finite b) =
     (if b = 0 then (if a = 0 then NaN else if 0 < a then PInf else NInf) else round64 (a / b))"
| "double_div (Finite a) PInf = Finite 0"
| "double_div (Finite a) NInf = Finite 0"
| "double_div PInf (Finite b) = (if 0 \<le> b then PInf else NInf)"
| "double_div NInf (Finite b) = (if 0 \<le> b then NInf else PInf)"
| "double_div PInf PInf = NaN"
| "double_div PInf NInf = NaN"
| "double_div NInf PInf = NaN"
| "double_div NInf NInf = NaN"
| "double_div NaN b = NaN"
| "double_div a NaN = NaN"

text \<open>The comparisons \<^verbatim>\<open><\<close> and \<^verbatim>\<open><=\<close>: false when an operand is NaN.\<close>

fun double_less :: "double \<Rightarrow> double \<Rightarrow> bool" where
  "double_less (Finite a) (Finite b) = (a < b)"
| "double_less (Finite a) PInf = True"
| "double_less NInf (Finite b) = True"
| "double_less NInf PInf = True"
| "double_less a b = False"

fun double_le :: "double \<Rightarrow> double \<Rightarrow> bool" where
  "double_le (Finite a) (Finite b) = (a \<le> b)"
| "double_le (Finite a) PInf = True"
| "double_le PInf PInf = True"
| "double_le NInf (Finite b) = True"
| "double_le NInf PInf = True"
| "double_le NInf NInf = True"
| "double_le a b = False"

text \<open>\<^verbatim>\<open>std::min(a, b)\<close> is \<^verbatim>\<open>(b < a) ? b : a\<close>: it returns \<open>a\<close> when \<open>a\<close> is NaN.\<close>

definition std_min_ieee :: "double \<Rightarrow> double \<Rightarrow> double" where
  "std_min_ieee a b = (if double_less b a then b else a)"

text \<open>
  \<^verbatim>\<open>static_cast<int>(x)\<close>: the conversion of an infinity or of NaN, like that of a number
  whose truncation does not fit the type, is undefined.
\<close>

fun static_cast_int_ieee :: "double \<Rightarrow> error + int" where
  "static_cast_int_ieee (Finite x) = static_cast_int x"
| "static_cast_int_ieee d = Inl CastOverflow"

subsection \<open>Grid sizing and the stability check\<close>

text \<open>
  The members that \<^verbatim>\<open>configureMode\<close> and \<^verbatim>\<open>checkStability\<close> read or write:
  \<^verbatim>\<open>params.sigma\<close>, \<^verbatim>\<open>params.T\<close>, \<^verbatim>\<open>Smax\<close>, \<^verbatim>\<open>N\<close>, \<^verbatim>\<open>M\<close>, \<^verbatim>\<open>dS\<close> and
  \<^verbatim>\<open>dt\<close>.
\<close>

record FiniteDifferencePricer_ieee =
  sigma_ieee :: double
  T_ieee :: double
  Smax_ieee :: double
  N_ieee :: int
  M_ieee :: int
  dS_ieee :: double
  dt_ieee :: double

text \<open>
  The expression \<^verbatim>\<open>(dS * dS) / (params.sigma * params.sigma * Smax * Smax)\<close>, which both
  functions evaluate; the products associate to the left.
\<close>

definition stability_bound_ieee :: "double \<Rightarrow> double \<Rightarrow> double \<Rightarrow> double" where
  "stability_bound_ieee dS' sg X =
     double_div (double_mul dS' dS') (double_mul (double_mul (double_mul sg sg) X) X)"

definition configureMode_ieee ::
  "int \<Rightarrow> int \<Rightarrow> FiniteDifferencePricer_ieee \<Rightarrow> error + FiniteDifferencePricer_ieee" where
  "configureMode_ieee mode Nin s =
     (let N' = configured_N mode Nin;
          M_target = (100 :: int);
          dt_max = double_div (T_ieee s) (Finite (of_int M_target));
          dS' = double_div (Smax_ieee s) (Finite (of_int N'));
          dt' = std_min_ieee (stability_bound_ieee dS' (sigma_ieee s) (Smax_ieee s)) dt_max
      in case static_cast_int_ieee (double_div (T_ieee s) dt') of Inl e \<Rightarrow> Inl e
         | Inr c \<Rightarrow>
        (case int_add c 1 of Inl e \<Rightarrow> Inl e
         | Inr M' \<Rightarrow> Inr (s\<lparr>N_ieee := N', dS_ieee := dS', dt_ieee := dt', M_ieee := M'\<rparr>)))"

definition checkStability_ieee :: "FiniteDifferencePricer_ieee \<Rightarrow> bool" where
  "checkStability_ieee s =
     double_le (dt_ieee s) (stability_bound_ieee (dS_ieee s) (sigma_ieee s) (Smax_ieee s))"

section \<open>Definitions that follow the specification\<close>

text \<open>
  The value the specification gives to an interior grid point \<open>j\<close> after one time step,
  in the specification's words: with \<open>S = j \<times> spatialStepSize\<close>,
  \<open>alpha = volatility\<^sup>2 S\<^sup>2 dt / (2 spatialStepSize\<^sup>2)\<close>,
  \<open>beta = rate S dt / (2 spatialStepSize)\<close>, \<open>a = alpha - beta\<close>,
  \<open>b = 1 - rate dt - 2 alpha\<close> and \<open>c = alpha + beta\<close>, it is
  \<open>a \<times> previous[j-1] + b \<times> previous[j] + c \<times> previous[j+1]\<close>.
\<close>

definition spec_interior_value :: "FiniteDifferencePricer \<Rightarrow> real list \<Rightarrow> int \<Rightarrow> real" where
  "spec_interior_value s previous j =
     (let S = of_int j * dS s;
          alpha = (sigma (params s))\<^sup>2 * S\<^sup>2 * dt s / (2 * (dS s)\<^sup>2);
          beta = r (params s) * S * dt s / (2 * dS s);
          a = alpha - beta;
          b = 1 - r (params s) * dt s - 2 * alpha;
          c = alpha + beta
      in a * previous ! nat (j - 1) + b * previous ! nat j + c * previous ! nat (j + 1))"

text \<open>
  The state of the solver after \<open>k\<close> iterations of its loop over \<open>m\<close>: the grid at
  maturity, then \<open>k\<close> time steps with the loop counter at \<open>M\<close>, \<open>M - 1\<close>, and so on.
  \<open>steps m k\<close> is \<open>k\<close> iterations that start with the counter at \<open>m\<close>.
\<close>

fun steps :: "int \<Rightarrow> nat \<Rightarrow> FiniteDifferencePricer \<Rightarrow> error + FiniteDifferencePricer" where
  "steps m 0 s = Inr s"
| "steps m (Suc k) s =
     (case time_step m s of Inl e \<Rightarrow> Inl e
      | Inr (s', U_old) \<Rightarrow> steps (m - 1) k s')"

fun solver_after :: "nat \<Rightarrow> FiniteDifferencePricer \<Rightarrow> error + FiniteDifferencePricer" where
  "solver_after 0 s =
     (case initial_grid s of Inl e \<Rightarrow> Inl e
      | Inr (s1, U_old) \<Rightarrow> Inr s1)"
| "solver_after (Suc k) s =
     (case solver_after k s of Inl e \<Rightarrow> Inl e
      | Inr s' \<Rightarrow>
     (case time_step (M s - int k) s' of Inl e \<Rightarrow> Inl e
      | Inr (s'', U_old) \<Rightarrow> Inr s''))"

text \<open>
  A sequence of validated user inputs: standard input holds, for each of the six prompts in
  turn, an entry that the prompt accepts, possibly after entries that it rejects.
  \<open>next_valid ok xs\<close> is the first entry of \<open>xs\<close> that \<open>ok\<close> accepts, with the input
  that follows it.
\<close>

fun next_valid :: "(real \<Rightarrow> bool) \<Rightarrow> real list \<Rightarrow> (real \<times> real list) option" where
  "next_valid ok [] = None"
| "next_valid ok (x # xs) = (if ok x then Some (x, xs) else next_valid ok xs)"

definition validated_inputs :: "real list \<Rightarrow> bool" where
  "validated_inputs cin =
     (case next_valid (\<lambda>v. v = 0 \<or> v = 1) cin of None \<Rightarrow> False
      | Some (v1, cin1) \<Rightarrow>
     (case next_valid (\<lambda>v. 0 < v) cin1 of None \<Rightarrow> False
      | Some (v2, cin2) \<Rightarrow>
     (case next_valid (\<lambda>v. 0 < v) cin2 of None \<Rightarrow> False
      | Some (v3, cin3) \<Rightarrow>
     (case next_valid (\<lambda>v. 0 \<le> v \<and> v \<le> 1) cin3 of None \<Rightarrow> False
      | Some (v4, cin4) \<Rightarrow>
     (case next_valid (\<lambda>v. 0 < v \<and> v \<le> 1) cin4 of None \<Rightarrow> False
      | Some (v5, cin5) \<Rightarrow>
     (case next_valid (\<lambda>v. 0 < v) cin5 of None \<Rightarrow> False
      | Some (v6, cin6) \<Rightarrow> True))))))"

text \<open>
  A final grid with four spatial steps and a spot price between two grid points, as a call
  and as a put.
\<close>

definition small_call :: FiniteDifferencePricer where
  "small_call =
     \<lparr>params = \<lparr>type = 1, S0 = 2.5, K = 1, r = 0, sigma = 0.5, T = 1\<rparr>,
      Smax = 4, N = 4, M = 101, dS = 1, dt = 0.01, U = [0, 0.25, 1, 2, 3]\<rparr>"

definition small_put :: FiniteDifferencePricer where
  "small_put = small_call\<lparr>params := (params small_call)\<lparr>type := 0\<rparr>\<rparr>"

text \<open>
  The scenario of the specification: a call with spot 100, strike 135, rate 0.05,
  volatility 0.2 and maturity 1, on the grid of the fast mode (100 spatial steps).
\<close>

definition scenario_params :: Parameters where
  "scenario_params = \<lparr>type = 1, S0 = 100, K = 135, r = 0.05, sigma = 0.2, T = 1\<rparr>"

definition scenario_grid :: FiniteDifferencePricer where
  "scenario_grid =
     \<lparr>params = scenario_params, Smax = 540, N = 100, M = 401, dS = 5.4, dt = 0.0025, U = []\<rparr>"

section \<open>Auxiliary definitions for grid sizing in binary64 arithmetic\<close>

text \<open>
  The values that are not below zero, NaN counted among them: multiplication and division
  preserve the property, and the stability bound has it.
\<close>

fun not_negative :: "double \<Rightarrow> bool" where
  "not_negative (Finite y) = (0 \<le> y)"
| "not_negative PInf = True"
| "not_negative NInf = False"
| "not_negative NaN = True"

text \<open>
  States of the pricer before grid sizing, as the constructor and \<^verbatim>\<open>inputParameters\<close>
  leave them (\<open>N = 50\<close>, \<open>M = 2000\<close>, \<open>Smax = 4 \<times> K\<close>), with inputs that are binary64
  numbers: volatility \<open>0.5\<close>, maturity \<open>1\<close> and strike \<open>128\<close>; the same with the strike
  \<open>2 ^ 520\<close>, about \<open>3.4e156\<close>; with the maturity \<open>16\<close>; and with the maturity that the
  input \<^verbatim>\<open>0.45\<close> is read as, the binary64 number \<open>8106479329266893 / 2 ^ 54\<close>.
\<close>

definition sizing_example :: FiniteDifferencePricer_ieee where
  "sizing_example =
     \<lparr>sigma_ieee = Finite (1 / 2), T_ieee = Finite 1, Smax_ieee = Finite 512,
      N_ieee = 50, M_ieee = 2000, dS_ieee = Finite 0, dt_ieee = Finite 0\<rparr>"

definition huge_strike :: FiniteDifferencePricer_ieee where
  "huge_strike = sizing_example\<lparr>Smax_ieee := Finite (2 ^ 522)\<rparr>"

definition long_maturity :: FiniteDifferencePricer_ieee where
  "long_maturity = sizing_example\<lparr>T_ieee := Finite 16\<rparr>"

definition maturity_045 :: FiniteDifferencePricer_ieee where
  "maturity_045 = sizing_example\<lparr>T_ieee := Finite (8106479329266893 / 2 ^ 54)\<rparr>"

section \<open>The loops, step by step\<close>

lemma std_min_eq: "std_min a b = min a b"
  by (simp add: std_min_def min_def)

lemma spec_interior_value_U [simp]: "spec_interior_value (s\<lparr>U := u\<rparr>) = spec_interior_value s"
  by (simp add: spec_interior_value_def fun_eq_iff)

declare init_loop.simps [simp del] inner_loop.simps [simp del] time_loop.simps [simp del]

lemma spec_interior_value_code:
  "spec_interior_value s previous j =
     (let S = of_int j * dS s;
          alpha = (sigma (params s) * sigma (params s) * S * S * dt s) / (2.0 * dS s * dS s);
          beta = (r (params s) * S * dt s) / (2.0 * dS s);
          a = alpha - beta;
          b = 1.0 - r (params s) * dt s - 2.0 * alpha;
          c = alpha + beta
      in a * previous ! nat (j - 1) + b * previous ! nat j + c * previous ! nat (j + 1))"
  by (simp add: spec_interior_value_def Let_def power2_eq_square)

lemma inner_loop_done: "\<not> j < N s \<Longrightarrow> inner_loop j U_old s = Inr s"
  by (subst inner_loop.simps) simp

lemma inner_loop_step:
  assumes "j < N s" "1 \<le> j" "int (length U_old) = N s + 1" "length (U s) = length U_old"
  shows "inner_loop j U_old s = inner_loop (j + 1) U_old (s\<lparr>U := (U s)[nat j := spec_interior_value s U_old j]\<rparr>)"
proof -
  have lds: "load U_old (j - 1) = Inr (U_old ! nat (j - 1))" "load U_old j = Inr (U_old ! nat j)"
    "load U_old (j + 1) = Inr (U_old ! nat (j + 1))"
    using assms by (simp_all add: load_def)
  have st: "\<And>v. store (U s) j v = Inr ((U s)[nat j := v])"
    using assms by (simp add: store_def)
  show ?thesis
    apply (subst spec_interior_value_code)
    apply (subst inner_loop.simps)
    using assms(1) lds st
    apply (simp add: Let_def)
    done
qed

lemma inner_loop_result:
  "1 \<le> j \<Longrightarrow> int (length U_old) = N s + 1 \<Longrightarrow> length (U s) = length U_old \<Longrightarrow>
   \<exists>u. inner_loop j U_old s = Inr (s\<lparr>U := u\<rparr>) \<and> length u = length U_old \<and>
       (\<forall>i. u ! i = (if j \<le> int i \<and> int i < N s then spec_interior_value s U_old (int i) else U s ! i))"
proof (induction "nat (N s - j)" arbitrary: j s)
  case 0
  then have "inner_loop j U_old s = Inr s"
    by (simp add: inner_loop_done)
  with 0 show ?case
    by (intro exI[of _ "U s"]) auto
next
  case (Suc k)
  then have lt: "j < N s" by linarith
  let ?v = "spec_interior_value s U_old j"
  let ?s' = "s\<lparr>U := (U s)[nat j := ?v]\<rparr>"
  have unf: "inner_loop j U_old s = inner_loop (j + 1) U_old ?s'"
    using lt Suc.prems by (rule inner_loop_step)
  have "\<exists>u. inner_loop (j + 1) U_old ?s' = Inr (?s'\<lparr>U := u\<rparr>) \<and> length u = length U_old \<and>
       (\<forall>i. u ! i = (if j + 1 \<le> int i \<and> int i < N ?s' then spec_interior_value ?s' U_old (int i) else U ?s' ! i))"
    using Suc.hyps(2) Suc.prems by (intro Suc.hyps(1)) simp_all
  then obtain u where u: "inner_loop (j + 1) U_old ?s' = Inr (s\<lparr>U := u\<rparr>)" "length u = length U_old"
      "\<And>i. u ! i = (if j + 1 \<le> int i \<and> int i < N s then spec_interior_value s U_old (int i) else (U s)[nat j := ?v] ! i)"
    by auto
  have "u ! i = (if j \<le> int i \<and> int i < N s then spec_interior_value s U_old (int i) else U s ! i)" for i
  proof (cases "int i = j")
    case True
    then have "nat j = i" by simp
    with True lt Suc.prems show ?thesis
      by (simp add: u(3))
  next
    case False
    then have "nat j \<noteq> i" using Suc.prems(1) by auto
    with False show ?thesis
      by (auto simp: u(3))
  qed
  with u(1,2) unf show ?case by auto
qed

lemma time_step_result:
  assumes "0 < N s" "int (length (U s)) = N s + 1"
  shows "\<exists>u. time_step m s = Inr (s\<lparr>U := u\<rparr>, U s) \<and> length u = length (U s) \<and>
           u ! 0 = 0 \<and>
           u ! nat (N s) = Smax s - K (params s) * exp (- r (params s) * (T (params s) - of_int (m - 1) * dt s)) \<and>
           (\<forall>j. 1 \<le> j \<and> j \<le> N s - 1 \<longrightarrow> u ! nat j = spec_interior_value s (U s) j)"
proof -
  obtain u1 where u1: "inner_loop 1 (U s) s = Inr (s\<lparr>U := u1\<rparr>)" "length u1 = length (U s)"
    "\<And>i. u1 ! i = (if 1 \<le> int i \<and> int i < N s then spec_interior_value s (U s) (int i) else U s ! i)"
    using inner_loop_result[of 1 "U s" s] assms by auto
  let ?b = "Smax s - K (params s) * exp (- r (params s) * (T (params s) - of_int (m - 1) * dt s))"
  let ?u = "u1[0 := 0, nat (N s) := ?b]"
  have len: "0 < length u1" "nat (N s) < length u1"
    using assms u1(2) by auto
  have ts: "time_step m s = Inr (s\<lparr>U := ?u\<rparr>, U s)"
    using assms u1(1,2) by (simp add: time_step_def Let_def store_def)
  have z: "?u ! 0 = 0"
    using assms len by (simp add: nth_list_update)
  have b: "?u ! nat (N s) = ?b"
    using len by simp
  have i: "?u ! nat j = spec_interior_value s (U s) j" if "1 \<le> j" "j \<le> N s - 1" for j
  proof -
    have "nat j \<noteq> 0" "nat j \<noteq> nat (N s)" using that by auto
    then have "?u ! nat j = u1 ! nat j" by simp
    then show ?thesis using that by (simp add: u1(3))
  qed
  from ts z b i u1(2) show ?thesis
    by (intro exI[of _ ?u]) auto
qed

lemma init_loop_done: "\<not> j \<le> N s \<Longrightarrow> init_loop j s = Inr s"
  by (subst init_loop.simps) simp

lemma init_loop_step:
  assumes "j \<le> N s" "0 \<le> j" "int (length (U s)) = N s + 1"
  shows "init_loop j s = init_loop (j + 1) (s\<lparr>U := (U s)[nat j := call_payoff (of_int j * dS s) (K (params s))]\<rparr>)"
  apply (subst init_loop.simps)
  using assms
  apply (simp add: store_def)
  done

lemma init_loop_result:
  "0 \<le> j \<Longrightarrow> int (length (U s)) = N s + 1 \<Longrightarrow>
   \<exists>u. init_loop j s = Inr (s\<lparr>U := u\<rparr>) \<and> length u = length (U s) \<and>
       (\<forall>i. u ! i = (if j \<le> int i \<and> int i \<le> N s
                      then call_payoff (of_int (int i) * dS s) (K (params s)) else U s ! i))"
proof (induction "nat (N s + 1 - j)" arbitrary: j s)
  case 0
  then have "init_loop j s = Inr s"
    by (simp add: init_loop_done)
  with 0 show ?case
    by (intro exI[of _ "U s"]) auto
next
  case (Suc k)
  then have le: "j \<le> N s" by linarith
  let ?v = "call_payoff (of_int j * dS s) (K (params s))"
  let ?s' = "s\<lparr>U := (U s)[nat j := ?v]\<rparr>"
  have unf: "init_loop j s = init_loop (j + 1) ?s'"
    using le Suc.prems by (rule init_loop_step)
  have "\<exists>u. init_loop (j + 1) ?s' = Inr (?s'\<lparr>U := u\<rparr>) \<and> length u = length (U ?s') \<and>
       (\<forall>i. u ! i = (if j + 1 \<le> int i \<and> int i \<le> N ?s'
                      then call_payoff (of_int (int i) * dS ?s') (K (params ?s')) else U ?s' ! i))"
    using Suc.hyps(2) Suc.prems by (intro Suc.hyps(1)) simp_all
  then obtain u where u: "init_loop (j + 1) ?s' = Inr (s\<lparr>U := u\<rparr>)" "length u = length (U s)"
      "\<And>i. u ! i = (if j + 1 \<le> int i \<and> int i \<le> N s
                      then call_payoff (of_int (int i) * dS s) (K (params s)) else (U s)[nat j := ?v] ! i)"
    by auto
  have "u ! i = (if j \<le> int i \<and> int i \<le> N s
                then call_payoff (of_int (int i) * dS s) (K (params s)) else U s ! i)" for i
  proof (cases "int i = j")
    case True
    then have "nat j = i" by simp
    with True le Suc.prems show ?thesis
      by (simp add: u(3))
  next
    case False
    then have "nat j \<noteq> i" using Suc.prems(1) by auto
    with False show ?thesis
      by (auto simp: u(3))
  qed
  with u(1,2) unf show ?case by auto
qed

lemma initial_grid_result:
  assumes "- 1 \<le> N s" "N s < INT_MAX"
  shows "\<exists>u. initial_grid s = Inr (s\<lparr>U := u\<rparr>, replicate (nat (N s + 1)) 0) \<and>
           int (length u) = N s + 1 \<and>
           (\<forall>j. 0 \<le> j \<and> j \<le> N s \<longrightarrow> u ! nat j = call_payoff (of_int j * dS s) (K (params s)))"
proof -
  have ia: "int_add (N s) 1 = Inr (N s + 1)"
    using assms by (simp add: int_add_def INT_MAX_def INT_MIN_def)
  have vn: "vector_new (N s + 1) 0 = Inr (replicate (nat (N s + 1)) 0)"
    using assms by (simp add: vector_new_def)
  let ?s0 = "s\<lparr>U := replicate (nat (N s + 1)) 0\<rparr>"
  obtain u where u: "init_loop 0 ?s0 = Inr (s\<lparr>U := u\<rparr>)" "length u = nat (N s + 1)"
    "\<And>i. u ! i = (if 0 \<le> int i \<and> int i \<le> N s
                      then call_payoff (of_int (int i) * dS s) (K (params s)) else U ?s0 ! i)"
    using init_loop_result[of 0 ?s0] assms by auto
  have "initial_grid s = Inr (s\<lparr>U := u\<rparr>, replicate (nat (N s + 1)) 0)"
    by (simp add: initial_grid_def ia vn u(1))
  moreover have "u ! nat j = call_payoff (of_int j * dS s) (K (params s))" if "0 \<le> j" "j \<le> N s" for j
    using that by (simp add: u(3))
  ultimately show ?thesis
    using u(2) assms by (intro exI[of _ u]) auto
qed

lemma initial_grid_bounds:
  "initial_grid s = Inr x \<Longrightarrow> - 1 \<le> N s \<and> N s < INT_MAX"
  by (auto simp: initial_grid_def int_add_def vector_new_def INT_MAX_def INT_MIN_def
      split: if_splits sum.splits)

lemma time_loop_steps: "time_loop m U_old s = steps m (nat m) s"
proof (induction "nat m" arbitrary: m U_old s)
  case 0
  then show ?case by (subst time_loop.simps) simp
next
  case (Suc k)
  then have m: "0 < m" "nat m = Suc k" "nat (m - 1) = k" by linarith+
  show ?case
    apply (subst time_loop.simps)
    using m Suc.hyps(1)[of "m - 1"]
    apply (simp split: sum.splits prod.splits)
    done
qed

lemma steps_Suc_end:
  "steps m (Suc k) s =
     (case steps m k s of Inl e \<Rightarrow> Inl e
      | Inr s' \<Rightarrow> (case time_step (m - int k) s' of Inl e \<Rightarrow> Inl e | Inr (s'', U_old) \<Rightarrow> Inr s''))"
proof (induction k arbitrary: m s)
  case 0
  show ?case by (simp split: sum.splits prod.splits)
next
  case (Suc k)
  show ?case
  proof (cases "time_step m s")
    case (Inl e)
    then show ?thesis by simp
  next
    case (Inr x)
    obtain s' u where x: "x = (s', u)" by (cases x)
    have A: "steps m (Suc (Suc k)) s = steps (m - 1) (Suc k) s'"
      by (subst steps.simps(2)) (simp add: Inr x del: steps.simps)
    have B: "steps m (Suc k) s = steps (m - 1) k s'"
      by (subst steps.simps(2)) (simp add: Inr x del: steps.simps)
    have C: "m - 1 - int k = m - int (Suc k)" by simp
    show ?thesis
      unfolding A B Suc.IH[of "m - 1" s'] C ..
  qed
qed

lemma solver_after_steps:
  "solver_after k s =
     (case initial_grid s of Inl e \<Rightarrow> Inl e | Inr (s1, U_old) \<Rightarrow> steps (M s) k s1)"
proof (induction k)
  case 0
  show ?case by (simp split: sum.splits prod.splits)
next
  case (Suc k)
  show ?case
    apply (simp only: solver_after.simps(2) Suc.IH)
    apply (simp only: steps_Suc_end)
    apply (simp split: sum.splits prod.splits)
    done
qed

lemma initial_grid_fields:
  "initial_grid s = Inr (s1, U_old) \<Longrightarrow> \<exists>u. s1 = s\<lparr>U := u\<rparr> \<and> int (length u) = N s + 1"
proof -
  assume a: "initial_grid s = Inr (s1, U_old)"
  then have "- 1 \<le> N s \<and> N s < INT_MAX"
    using initial_grid_bounds by blast
  then obtain u where "initial_grid s = Inr (s\<lparr>U := u\<rparr>, replicate (nat (N s + 1)) 0)"
    "int (length u) = N s + 1"
    using initial_grid_result[of s] by blast
  with a show ?thesis by auto
qed

lemma computeCallOptionPrice_steps:
  "computeCallOptionPrice s = solver_after (nat (M s)) s"
proof (cases "initial_grid s")
  case (Inl e)
  then show ?thesis
    by (simp add: computeCallOptionPrice_def solver_after_steps)
next
  case (Inr x)
  obtain s1 U_old where x: "x = (s1, U_old)" by (cases x)
  with Inr obtain u where "s1 = s\<lparr>U := u\<rparr>"
    using initial_grid_fields by blast
  then have "M s1 = M s" by simp
  with Inr x show ?thesis
    by (simp add: computeCallOptionPrice_def solver_after_steps time_loop_steps)
qed

lemma solver_after_result:
  assumes "0 < N s" "N s < INT_MAX"
  shows "\<exists>u. solver_after k s = Inr (s\<lparr>U := u\<rparr>) \<and> int (length u) = N s + 1"
proof (induction k)
  case 0
  obtain u where "initial_grid s = Inr (s\<lparr>U := u\<rparr>, replicate (nat (N s + 1)) 0)"
    "int (length u) = N s + 1"
    using initial_grid_result[of s] assms by auto
  then show ?case by auto
next
  case (Suc k)
  then obtain u where u: "solver_after k s = Inr (s\<lparr>U := u\<rparr>)" "int (length u) = N s + 1"
    by blast
  let ?s' = "s\<lparr>U := u\<rparr>"
  obtain u' where "time_step (M s - int k) ?s' = Inr (?s'\<lparr>U := u'\<rparr>, U ?s')" "length u' = length (U ?s')"
    using time_step_result[of ?s' "M s - int k"] assms u(2) by auto
  with u show ?case by auto
qed

lemma solver_after_Inr:
  assumes "solver_after k s = Inr s'" "0 < N s"
  shows "N s < INT_MAX \<and> (\<exists>u. s' = s\<lparr>U := u\<rparr> \<and> int (length u) = N s + 1)"
proof -
  from assms(1) obtain x where "initial_grid s = Inr x"
    by (cases "initial_grid s") (simp_all add: solver_after_steps)
  then have b: "N s < INT_MAX"
    using initial_grid_bounds by blast
  with assms show ?thesis
    using solver_after_result[of s k] by auto
qed

lemma scenario_initial:
  "\<exists>u. solver_after 0 scenario_grid = Inr (scenario_grid\<lparr>U := u\<rparr>) \<and>
       u ! 49 = 129.6 \<and> u ! 50 = 135 \<and> u ! 51 = 140.4"
proof -
  obtain u where u: "initial_grid scenario_grid =
      Inr (scenario_grid\<lparr>U := u\<rparr>, replicate (nat (N scenario_grid + 1)) 0)"
    "\<And>j. 0 \<le> j \<and> j \<le> N scenario_grid \<Longrightarrow>
       u ! nat j = call_payoff (of_int j * dS scenario_grid) (K (params scenario_grid))"
    using initial_grid_result[of scenario_grid]
    by (auto simp: scenario_grid_def INT_MAX_def)
  have "u ! 49 = 129.6" "u ! 50 = 135" "u ! 51 = 140.4"
    using u(2)[of 49] u(2)[of 50] u(2)[of 51]
    by (simp_all add: scenario_grid_def scenario_params_def call_payoff_def std_max_def)
  with u(1) show ?thesis
    by (intro exI[of _ u]) simp
qed

lemma static_cast_int_of_int:
  "INT_MIN \<le> j \<Longrightarrow> j \<le> INT_MAX \<Longrightarrow> static_cast_int (of_int j) = Inr j"
  by (simp add: static_cast_int_def)

lemma price_call_interpolates:
  assumes "int (length (U s)) = N s + 1" and "0 \<le> j0" and "j0 < N s"
  shows "price_call s j0 w = Inr ((1 - w) * U s ! nat j0 + w * U s ! nat (j0 + 1))"
  using assms by (simp add: price_call_def load_def)

lemma price_call_edge:
  assumes "int (length (U s)) = N s + 1" and "0 \<le> N s"
  shows "price_call s (N s) w = Inr (U s ! nat (N s))"
  using assms by (simp add: price_call_def load_def)

lemma price_call_out_of_range:
  assumes "int (length (U s)) = N s + 1" and "j0 < 0 \<or> N s < j0"
  shows "price_call s j0 w = Inl OutOfBounds"
  using assms by (auto simp: price_call_def load_def)

lemma Delta_call_value:
  assumes "int (length (U s)) = N s + 1"
  shows "Delta_call s j0 =
     Inr (if 0 < j0 \<and> j0 < N s then (U s ! nat (j0 + 1) - U s ! nat (j0 - 1)) / (2 * dS s) else 0)"
  using assms by (simp add: Delta_call_def load_def)

lemma Gamma_value:
  assumes "int (length (U s)) = N s + 1"
  shows "Gamma s j0 =
     Inr (if 0 < j0 \<and> j0 < N s
          then (U s ! nat (j0 + 1) - 2 * U s ! nat j0 + U s ! nat (j0 - 1)) / (dS s)\<^sup>2 else 0)"
  using assms by (simp add: Gamma_def load_def power2_eq_square)

lemma displayResults_unfold:
  assumes "static_cast_int (of_int \<lfloor>S0 (params s) / dS s\<rfloor>) = Inr j0"
    and "price_call s j0 (S0 (params s) / dS s - of_int j0) = Inr pc"
    and "Delta_call s j0 = Inr dc" and "Gamma s j0 = Inr g"
  shows "displayResults s =
     Inr (if type (params s) = 0
          then (pc - S0 (params s) + K (params s) * exp (- r (params s) * T (params s)), dc - 1, g)
          else (pc, dc, g))"
  using assms by (simp add: displayResults_def Let_def)

lemma displayResults_out_of_range:
  assumes "int (length (U s)) = N s + 1" and "N s < \<lfloor>S0 (params s) / dS s\<rfloor>"
    and "- 1 \<le> N s" and "\<lfloor>S0 (params s) / dS s\<rfloor> \<le> INT_MAX"
  shows "displayResults s = Inl OutOfBounds"
proof -
  let ?j0 = "\<lfloor>S0 (params s) / dS s\<rfloor>"
  have "INT_MIN \<le> ?j0"
    unfolding INT_MIN_def using assms(2,3) by linarith
  then have "static_cast_int (of_int ?j0) = Inr ?j0"
    using assms(4) by (rule static_cast_int_of_int)
  moreover have "price_call s ?j0 w = Inl OutOfBounds" for w
    using assms by (intro price_call_out_of_range) simp_all
  ultimately show ?thesis
    by (simp add: displayResults_def Let_def)
qed

lemma configureMode_fields:
  assumes "configureMode mode Nin s = Inr s'"
  shows "params s' = params s \<and> Smax s' = Smax s \<and> U s' = U s \<and>
         N s' = configured_N mode Nin \<and>
         dS s' = Smax s / of_int (configured_N mode Nin) \<and>
         dt s' = std_min (dS s' * dS s' / (sigma (params s) * sigma (params s) * Smax s * Smax s))
                   (T (params s) / 100)"
  using assms
  by (auto simp: configureMode_def Let_def split: sum.splits)

lemma configureMode_stable:
  assumes "configureMode mode Nin s = Inr s'"
  shows "checkStability s'"
  using configureMode_fields[OF assms]
  by (simp add: checkStability_def std_min_def)


lemma computeCallOptionPrice_result:
  assumes "0 < N s" and "N s < INT_MAX"
  shows "\<exists>u. computeCallOptionPrice s = Inr (s\<lparr>U := u\<rparr>) \<and> int (length u) = N s + 1"
  using solver_after_result[OF assms, of "nat (M s)"]
  by (simp add: computeCallOptionPrice_steps)



lemma configureMode_U:
  "configureMode mode Nin (s\<lparr>U := u\<rparr>) =
     (case configureMode mode Nin s of Inl e \<Rightarrow> Inl e | Inr s' \<Rightarrow> Inr (s'\<lparr>U := u\<rparr>))"
  by (simp add: configureMode_def Let_def split: sum.splits)








section \<open>Rounding to binary64\<close>

lemma powr_le_pos: "2 powr a \<le> x \<Longrightarrow> 0 < (x::real)"
  by (rule less_le_trans[of 0 "2 powr a"]) simp_all

lemma round_even_bounds: "of_int \<lfloor>x\<rfloor> \<le> (of_int (round_even x) :: real)" "round_even x \<le> \<lceil>x\<rceil>"
  "\<bar>of_int (round_even x) - x\<bar> \<le> 1 / 2"
  unfolding round_even_def Let_def by (auto simp: ceiling_altdef)

lemma round_even_ge: "of_int n \<le> x \<Longrightarrow> n \<le> round_even x"
  using round_even_bounds(1)[of x] by (simp add: le_floor_iff) linarith

lemma round_even_le: "x \<le> of_int n \<Longrightarrow> round_even x \<le> n"
  using round_even_bounds(2)[of x] by (meson ceiling_le order_trans)

lemma round_even_of_int [simp]: "round_even (of_int n) = n"
  by (simp add: round_even_def)

declare exponent_up.simps [simp del]

lemma pow2_powr: "pow2 e = 2 powr of_int e"
  by (simp add: pow2_def powr_int)

lemma exponent_up_eq:
  assumes "2 powr of_int k \<le> x" and "x < 2 powr of_int (k + 1)" and "e \<le> k"
  shows "exponent_up e x = k"
  using assms(3)
proof (induction "nat (k - e)" arbitrary: e)
  case 0
  then have e: "e = k" by simp
  have "\<not> pow2 (k + 1) \<le> x" using assms(2) by (simp add: pow2_powr)
  then show ?case unfolding e by (subst exponent_up.simps) simp
next
  case (Suc n)
  then have l: "e + 1 \<le> k" by linarith
  then have "(2::real) powr of_int (e + 1) \<le> 2 powr of_int k"
    by (simp only: powr_le_cancel_iff of_int_le_iff)
  then have "pow2 (e + 1) \<le> x" using assms(1) unfolding pow2_powr by (rule order_trans)
  then have "exponent_up e x = exponent_up (e + 1) x"
    by (subst exponent_up.simps) simp
  also have "\<dots> = k"
    using Suc(2) l by (intro Suc(1)) simp_all
  finally show ?case .
qed

lemma binade_eq:
  assumes "2 powr of_int k \<le> x" and "x < 2 powr of_int (k + 1)" and "- 1022 \<le> k"
  shows "binade x = k"
proof -
  have "0 < x" using assms(1) by (rule powr_le_pos)
  then have "\<bar>x\<bar> = x" by simp
  then show ?thesis
    unfolding binade_def using exponent_up_eq[OF assms] by simp
qed

lemma round_real_normal:
  assumes "2 powr of_int k \<le> x" and "x < 2 powr of_int (k + 1)" and "- 1022 \<le> k"
  shows "round_real x = of_int (round_even (x / 2 powr of_int (k - 52))) * 2 powr of_int (k - 52)"
    and "2 powr of_int k \<le> round_real x" and "round_real x \<le> 2 powr of_int (k + 1)"
    and "\<bar>round_real x - x\<bar> \<le> 2 powr of_int (k - 53)"
proof -
  have x: "0 < x" using assms(1) by (rule powr_le_pos)
  let ?q = "2 powr of_int (k - 52) :: real"
  have q: "0 < ?q" by simp
  show eq: "round_real x = of_int (round_even (x / ?q)) * ?q"
    using x binade_eq[OF assms] by (simp add: round_real_def pow2_powr)
  have p1: "2 powr of_int k = of_int (2 ^ 52) * ?q"
    by (simp add: powr_diff powr_realpow[symmetric])
  have p2: "2 powr of_int (k + 1) = of_int (2 ^ 53) * ?q"
    by (simp add: powr_diff powr_add powr_realpow[symmetric])
  have "of_int (2 ^ 52) \<le> x / ?q"
    using assms(1) q unfolding p1 by (simp add: field_simps)
  then have "2 ^ 52 \<le> round_even (x / ?q)" by (rule round_even_ge)
  then have "(of_int (2 ^ 52) :: real) \<le> of_int (round_even (x / ?q))"
    by (simp only: of_int_le_iff)
  then show "2 powr of_int k \<le> round_real x"
    unfolding eq p1 using q by (simp only: mult_le_cancel_right_pos)
  have "x / ?q \<le> of_int (2 ^ 53)"
    using assms(2) q unfolding p2 by (simp add: field_simps)
  then have "round_even (x / ?q) \<le> 2 ^ 53" by (rule round_even_le)
  then have "(of_int (round_even (x / ?q)) :: real) \<le> of_int (2 ^ 53)"
    by (simp only: of_int_le_iff)
  then show "round_real x \<le> 2 powr of_int (k + 1)"
    unfolding eq p2 using q by (simp only: mult_le_cancel_right_pos)
  have "\<bar>of_int (round_even (x / ?q)) - x / ?q\<bar> \<le> 1 / 2"
    by (rule round_even_bounds)
  then have h1: "\<bar>of_int (round_even (x / ?q)) - x / ?q\<bar> * ?q \<le> 1 / 2 * ?q"
    using q by (simp only: mult_le_cancel_right_pos)
  have h2: "\<bar>of_int (round_even (x / ?q)) - x / ?q\<bar> * ?q = \<bar>round_real x - x\<bar>"
  proof -
    have "\<bar>of_int (round_even (x / ?q)) - x / ?q\<bar> * ?q =
          \<bar>(of_int (round_even (x / ?q)) - x / ?q) * ?q\<bar>"
      using q by (simp only: abs_mult abs_of_pos)
    also have "(of_int (round_even (x / ?q)) - x / ?q) * ?q = of_int (round_even (x / ?q)) * ?q - x"
      using q by (simp add: left_diff_distrib)
    finally show ?thesis unfolding eq .
  qed
  have h3: "1 / 2 * ?q = 2 powr of_int (k - 53)"
    by (simp add: powr_diff)
  from h1 show "\<bar>round_real x - x\<bar> \<le> 2 powr of_int (k - 53)"
    unfolding h2 h3 .
qed

lemma round_real_nonneg: "0 \<le> x \<Longrightarrow> 0 \<le> round_real x"
proof (cases "x = 0")
  case True
  then show ?thesis by (simp add: round_real_def)
next
  case False
  assume "0 \<le> x"
  then have "of_int 0 \<le> x / 2 powr of_int (binade x - 52)" by simp
  then have "0 \<le> round_even (x / 2 powr of_int (binade x - 52))" by (rule round_even_ge)
  then show ?thesis using False by (simp add: round_real_def pow2_powr)
qed

lemma pow_1024: "(2::real) ^ 1024 = 2 powr of_int 1024"
proof -
  have "(2::real) powr real (1024::nat) = 2 ^ 1024"
    by (rule powr_realpow) simp
  moreover have "real (1024::nat) = of_int 1024" by simp
  ultimately show ?thesis by (simp only:)
qed

lemma binade_bracket:
  assumes "2 powr (- 1022) \<le> (x::real)"
  shows "\<exists>k. - 1022 \<le> k \<and> 2 powr of_int k \<le> x \<and> x < 2 powr of_int (k + 1)"
proof -
  have x: "0 < x" using assms by (rule powr_le_pos)
  let ?k = "\<lfloor>log 2 x\<rfloor>"
  have b: "2 powr of_int ?k \<le> x \<and> x < 2 powr of_int (?k + 1)"
    using floor_log_eq_powr_iff[of x 2 ?k] x by simp
  have "- 1022 \<le> log 2 x"
    using assms x by (simp add: le_log_iff)
  then have "- 1022 \<le> ?k" by (simp add: le_floor_iff)
  with b show ?thesis by blast
qed

lemma round_real_relative:
  assumes "2 powr (- 1022) \<le> (x::real)"
  shows "x * (1 - 1 / 2 ^ 53) \<le> round_real x" and "round_real x \<le> x * (1 + 1 / 2 ^ 53)"
proof -
  define c :: real where "c = 1 / 2 ^ 53"
  have c: "0 \<le> c" by (simp add: c_def)
  obtain k where k: "- 1022 \<le> k" "2 powr of_int k \<le> x" "x < 2 powr of_int (k + 1)"
    using binade_bracket[OF assms] by blast
  have e: "\<bar>round_real x - x\<bar> \<le> 2 powr of_int (k - 53)"
    using round_real_normal(4)[OF k(2,3,1)] .
  have "(2::real) powr of_int (k - 53) = 2 powr of_int k * c"
    by (simp add: powr_diff c_def)
  also have "\<dots> \<le> x * c"
    using k(2) c by (rule mult_right_mono)
  finally have "\<bar>round_real x - x\<bar> \<le> x * c"
    using e by linarith
  then have d: "round_real x - x \<le> x * c" "x - round_real x \<le> x * c"
    by linarith+
  have "x * (1 - c) \<le> round_real x"
    using d(2) by (simp add: algebra_simps)
  moreover have "round_real x \<le> x * (1 + c)"
    using d(1) by (simp add: algebra_simps)
  ultimately show "x * (1 - 1 / 2 ^ 53) \<le> round_real x" and "round_real x \<le> x * (1 + 1 / 2 ^ 53)"
    unfolding c_def .
qed

lemma round64_overflow:
  assumes "2 ^ 1024 \<le> x"
  shows "round64 x = PInf"
proof -
  have a: "(2::real) powr of_int 1024 \<le> x" using assms unfolding pow_1024 .
  have "(2::real) powr (- 1022) \<le> 2 powr of_int 1024"
    by (simp only: powr_le_cancel_iff)
  then have "2 powr (- 1022) \<le> x" using a by (rule order_trans)
  then obtain k where k: "- 1022 \<le> k" "2 powr of_int k \<le> x" "x < 2 powr of_int (k + 1)"
    using binade_bracket by blast
  have "(2::real) powr of_int 1024 < 2 powr of_int (k + 1)"
    using a k(3) by (rule le_less_trans)
  then have "(of_int 1024 :: real) < of_int (k + 1)"
    by (simp only: powr_less_cancel_iff one_less_numeral_iff semiring_norm)
  then have "1024 \<le> k" by linarith
  then have "(of_int 1024 :: real) \<le> of_int k" by (simp only: of_int_le_iff)
  then have "(2::real) powr of_int 1024 \<le> 2 powr of_int k"
    by (simp only: powr_le_cancel_iff one_less_numeral_iff semiring_norm)
  also have "\<dots> \<le> round_real x"
    using round_real_normal(2)[OF k(2,3,1)] .
  finally have "2 ^ 1024 \<le> round_real x" unfolding pow_1024 .
  then show ?thesis by (simp only: round64_def Let_def if_True)
qed

lemma round64_nonneg:
  assumes "0 \<le> x"
  shows "round64 x = PInf \<or> (round64 x = Finite (round_real x) \<and> 0 \<le> round_real x \<and> round_real x < 2 ^ 1024)"
  using round_real_nonneg[OF assms] by (auto simp: round64_def Let_def)

lemma round64_power_of_two:
  assumes "- 1022 \<le> k" and "k \<le> 1023"
  shows "round64 (2 powr of_int k) = Finite (2 powr of_int k)"
proof -
  let ?x = "2 powr of_int k :: real"
  have b: "?x \<le> ?x" "?x < 2 powr of_int (k + 1)" by simp_all
  have "?x / 2 powr of_int (k - 52) = of_int (2 ^ 52)"
    by (simp add: powr_diff powr_realpow[symmetric])
  then have r: "round_real ?x = of_int (2 ^ 52) * 2 powr of_int (k - 52)"
    using round_real_normal(1)[OF b assms(1)] by (simp only: round_even_of_int)
  have "of_int (2 ^ 52) * 2 powr of_int (k - 52) = ?x"
    by (simp add: powr_diff powr_realpow[symmetric])
  with r have rr: "round_real ?x = ?x" by simp
  have "(of_int k :: real) < of_int 1024" using assms(2) by simp
  then have lt: "?x < 2 ^ 1024"
    unfolding pow_1024 by (simp only: powr_less_cancel_iff one_less_numeral_iff semiring_norm)
  have "(0::real) < 2 ^ 1024" by (rule zero_less_power) simp
  then have "- (2 ^ 1024) < (0::real)" by (simp only: neg_less_0_iff_less)
  also have "0 < ?x" by simp
  finally have gt: "- (2 ^ 1024) < ?x" .
  show ?thesis
    unfolding round64_def Let_def rr using lt gt by (simp only: not_le[symmetric] if_False)
qed

lemma pow2_pos: "(2::real) powr of_int (int n) = 2 ^ n"
  by (simp add: powr_realpow)

lemma pow2_neg: "(2::real) powr of_int (- int n) = 1 / 2 ^ n"
  by (simp add: powr_minus powr_realpow field_simps)

lemma round64_pow:
  assumes "n \<le> 1023"
  shows "round64 (2 ^ n) = Finite (2 ^ n)"
  using round64_power_of_two[of "int n"] assms unfolding pow2_pos by simp

lemma round64_inv_pow:
  assumes "n \<le> 1022"
  shows "round64 (1 / 2 ^ n) = Finite (1 / 2 ^ n)"
  using round64_power_of_two[of "- int n"] assms unfolding pow2_neg by simp

lemma round64_normal:
  assumes "2 powr of_int k \<le> x" and "x < 2 powr of_int (k + 1)" and "- 1022 \<le> k" and "k \<le> 1022"
    and "p = 2 powr of_int (k - 52)"
  shows "round64 x = Finite (of_int (round_even (x / p)) * p)"
    and "2 powr of_int k \<le> of_int (round_even (x / p)) * p"
    and "of_int (round_even (x / p)) * p \<le> 2 powr of_int (k + 1)"
proof -
  note r = round_real_normal[OF assms(1,2,3)]
  have e: "round_real x = of_int (round_even (x / p)) * p"
    using r(1) assms(5) by simp
  show "2 powr of_int k \<le> of_int (round_even (x / p)) * p"
    and u: "of_int (round_even (x / p)) * p \<le> 2 powr of_int (k + 1)"
    using r(2,3) unfolding e by simp_all
  have "(of_int (k + 1) :: real) < of_int 1024" using assms(4) by simp
  then have "(2::real) powr of_int (k + 1) < 2 ^ 1024"
    unfolding pow_1024 by (simp only: powr_less_cancel_iff one_less_numeral_iff semiring_norm)
  with u have lt: "of_int (round_even (x / p)) * p < 2 ^ 1024" by (rule le_less_trans)
  have "(0::real) < 2 ^ 1024" by (rule zero_less_power) simp
  then have "- (2 ^ 1024) < (0::real)" by (simp only: neg_less_0_iff_less)
  also have "(0::real) < 2 powr of_int k" by simp
  also have "\<dots> \<le> round_real x" by (rule r(2))
  finally have gt: "- (2 ^ 1024) < of_int (round_even (x / p)) * p" unfolding e .
  show "round64 x = Finite (of_int (round_even (x / p)) * p)"
    unfolding round64_def Let_def e using lt gt by (simp only: not_le[symmetric] if_False)
qed

section \<open>Grid sizing in binary64 arithmetic, step by step\<close>

lemma double_less_imp_le: "double_less a b \<Longrightarrow> double_le a b"
  by (cases a; cases b) auto

lemma double_le_refl: "a \<noteq> NaN \<Longrightarrow> double_le a a"
  by (cases a) auto

lemma std_min_ieee_le: "b \<noteq> NaN \<Longrightarrow> double_le (std_min_ieee b d) b"
  by (simp add: std_min_ieee_def double_less_imp_le double_le_refl)

lemma configureMode_ieee_fields:
  assumes "configureMode_ieee mode Nin s = Inr s'"
  shows "sigma_ieee s' = sigma_ieee s \<and> T_ieee s' = T_ieee s \<and> Smax_ieee s' = Smax_ieee s \<and>
         N_ieee s' = configured_N mode Nin \<and>
         dS_ieee s' = double_div (Smax_ieee s) (Finite (of_int (configured_N mode Nin))) \<and>
         dt_ieee s' = std_min_ieee (stability_bound_ieee (dS_ieee s') (sigma_ieee s) (Smax_ieee s))
                        (double_div (T_ieee s) (Finite 100))"
  using assms
  by (auto simp: configureMode_ieee_def Let_def split: sum.splits)

lemma not_negative_round64: "0 \<le> x \<Longrightarrow> not_negative (round64 x)"
  using round64_nonneg[of x] by auto

lemma not_negative_mul: "not_negative a \<Longrightarrow> not_negative b \<Longrightarrow> not_negative (double_mul a b)"
  by (cases a; cases b) (auto simp: not_negative_round64)

lemma not_negative_square: "not_negative (double_mul a a)"
  by (cases a) (auto simp: not_negative_round64)

lemma not_negative_div: "not_negative a \<Longrightarrow> not_negative b \<Longrightarrow> not_negative (double_div a b)"
  by (cases a; cases b) (auto simp: not_negative_round64)

lemma not_negative_bound:
  assumes "0 \<le> X"
  shows "not_negative (stability_bound_ieee dS' sg (Finite X))"
  unfolding stability_bound_ieee_def
  using assms by (intro not_negative_div not_negative_mul not_negative_square) simp_all

lemma round64_finite:
  assumes "0 \<le> round_real x" and "round_real x < 2 ^ 1024"
  shows "round64 x = Finite (round_real x)"
proof -
  have "(0::real) < 2 ^ 1024" by (rule zero_less_power) simp
  then have "- (2 ^ 1024) < (0::real)" by (simp only: neg_less_0_iff_less)
  then have "- (2 ^ 1024) < round_real x" using assms(1) by (rule less_le_trans)
  with assms(2) show ?thesis
    unfolding round64_def Let_def by (simp only: not_le[symmetric] if_False)
qed

lemma round64_Finite_D: "round64 x = Finite y \<Longrightarrow> y = round_real x"
  by (auto simp: round64_def Let_def split: if_splits)

lemma normal_threshold: "(2::real) powr (- 1015) = 128 * 2 powr (- 1022)"
proof -
  have "(2::real) powr (- 1015) = 2 powr (7 + (- 1022))" by simp
  also have "\<dots> = 2 powr 7 * 2 powr (- 1022)" by (rule powr_add)
  also have "(2::real) powr 7 = 128" by simp
  finally show ?thesis .
qed

lemma dt_max_bounds:
  fixes t :: real
  assumes "2 powr (- 1015) \<le> t" and "t < 2 ^ 1024"
  shows "double_div (Finite t) (Finite 100) = Finite (round_real (t / 100))"
    and "0 < round_real (t / 100)"
    and "round_real (t / 100) \<le> t / 100 * (1 + 1 / 2 ^ 53)"
proof -
  define c :: real where "c = 1 / 2 ^ 53"
  define B :: real where "B = 2 ^ 1024"
  have c: "0 < c" "c < 1" by (simp_all add: c_def)
  have p: "(0::real) < 2 powr (- 1022)" by simp
  have t: "0 < t" using assms(1) by (rule powr_le_pos)
  have "(2::real) powr (- 1022) * 100 \<le> 128 * 2 powr (- 1022)" using p by simp
  also have "\<dots> \<le> t" using assms(1) unfolding normal_threshold .
  finally have n: "2 powr (- 1022) \<le> t / 100" by simp
  note r = round_real_relative[OF n, folded c_def]
  have "0 < t / 100 * (1 - c)" using t c by simp
  with r(1) show pos: "0 < round_real (t / 100)" by linarith
  show "round_real (t / 100) \<le> t / 100 * (1 + 1 / 2 ^ 53)"
    using r(2) unfolding c_def .
  have "t / 100 * (1 + c) \<le> t / 100 * 2"
    using t c by (intro mult_left_mono) simp_all
  with r(2) have "round_real (t / 100) \<le> t" using t by linarith
  then have "round_real (t / 100) < 2 ^ 1024" using assms(2) by (rule le_less_trans)
  with pos have "round64 (t / 100) = Finite (round_real (t / 100))"
    by (intro round64_finite) simp_all
  then show "double_div (Finite t) (Finite 100) = Finite (round_real (t / 100))"
    by simp
qed

lemma quotient_bound:
  fixes t tv dv q :: real
  assumes "0 < t" and "0 < tv" and "tv \<le> dv" and "dv \<le> t / 100 * (1 + 1 / 2 ^ 53)"
    and "q = round_real (t / tv)"
  shows "100 * (1 - 1 / 2 ^ 52) \<le> q"
proof -
  define c :: real where "c = 1 / 2 ^ 53"
  have c: "0 < c" "c < 1" by (simp_all add: c_def)
  have c2: "1 / 2 ^ 52 = 2 * c" by (simp add: c_def)
  have dv: "dv \<le> t / 100 * (1 + c)" using assms(4) unfolding c_def .
  have "tv * 100 \<le> t * (1 + c)" using assms(3) dv by simp
  then have z: "100 / (1 + c) \<le> t / tv"
    using assms(2) c by (simp add: field_simps)
  have "50 \<le> 100 / (1 + c)" using c by (simp add: field_simps)
  with z have z50: "50 \<le> t / tv" by simp
  have "(2::real) powr (- 1022) \<le> 2 powr 0" by (simp only: powr_le_cancel_iff)
  then have "2 powr (- 1022) \<le> t / tv" using z50 by simp
  from round_real_relative(1)[OF this, folded c_def]
  have q: "t / tv * (1 - c) \<le> q" unfolding assms(5) .
  have "100 * (1 - 2 * c) \<le> 100 / (1 + c) * (1 - c)"
  proof -
    have "(1 - 2 * c) * (1 + c) \<le> 1 - c" using c by (simp add: algebra_simps)
    then have "1 - 2 * c \<le> (1 - c) / (1 + c)" using c by (simp add: field_simps)
    then have "100 * (1 - 2 * c) \<le> 100 * ((1 - c) / (1 + c))"
      by (intro mult_left_mono) simp_all
    then show ?thesis by (simp only: times_divide_eq_right times_divide_eq_left mult.assoc)
  qed
  also have "\<dots> \<le> t / tv * (1 - c)"
    using z c by (intro mult_right_mono) simp_all
  also note q
  finally show ?thesis unfolding c2 .
qed

lemma time_step_size_cases:
  assumes "not_negative b" and "0 < dv"
    and "double_div (Finite t) (std_min_ieee b (Finite dv)) = Finite q" and "0 < t"
  shows "\<exists>tv. std_min_ieee b (Finite dv) = Finite tv \<and> 0 < tv \<and> tv \<le> dv"
proof (cases b)
  case (Finite bv)
  then have bv: "0 \<le> bv" using assms(1) by simp
  let ?tv = "if dv < bv then dv else bv"
  have m: "std_min_ieee b (Finite dv) = Finite ?tv"
    by (simp add: std_min_ieee_def Finite)
  have "?tv \<noteq> 0"
  proof
    assume "?tv = 0"
    then have "double_div (Finite t) (std_min_ieee b (Finite dv)) = PInf"
      using assms(4) unfolding m by simp
    with assms(3) show False by simp
  qed
  with bv assms(2) have "0 < ?tv \<and> ?tv \<le> dv" by auto
  with m show ?thesis by blast
next
  case PInf
  then have "std_min_ieee b (Finite dv) = Finite dv"
    by (simp add: std_min_ieee_def)
  with assms(2) show ?thesis by simp
next
  case NInf
  with assms(1) show ?thesis by simp
next
  case NaN
  then have "std_min_ieee b (Finite dv) = NaN"
    by (simp add: std_min_ieee_def)
  with assms(3) show ?thesis by simp
qed

lemma round64_values:
  "round64 8 = Finite 8" "round64 32 = Finite 32" "round64 64 = Finite 64"
  "round64 128 = Finite 128" "round64 1024 = Finite 1024" "round64 65536 = Finite 65536"
  "round64 (1 / 4) = Finite (1 / 4)" "round64 (1 / 64) = Finite (1 / 64)"
  "round64 (1 / 1024) = Finite (1 / 1024)" "round64 (1 / 4096) = Finite (1 / 4096)"
  "round64 (1 / 268435456) = Finite (1 / 268435456)" "round64 4294967296 = Finite 4294967296"
  using round64_pow[of 3] round64_pow[of 5] round64_pow[of 6] round64_pow[of 7]
    round64_pow[of 10] round64_pow[of 16] round64_inv_pow[of 2] round64_inv_pow[of 6]
    round64_inv_pow[of 10] round64_inv_pow[of 12] round64_inv_pow[of 28] round64_pow[of 32]
  by simp_all

lemma bound_sizing_example:
  "stability_bound_ieee (Finite 8) (Finite (1 / 2)) (Finite 512) = Finite (1 / 1024)"
  "stability_bound_ieee (Finite 32) (Finite (1 / 2)) (Finite 512) = Finite (1 / 64)"
  "stability_bound_ieee (Finite (1 / 64)) (Finite (1 / 2)) (Finite 512) = Finite (1 / 268435456)"
  by (simp_all add: stability_bound_ieee_def round64_values)

lemma dt_max_1:
  "\<exists>dv. double_div (Finite 1) (Finite 100) = Finite dv \<and> 1 / 128 \<le> dv"
proof -
  have p: "(2::real) powr of_int (- 7) = 1 / 2 ^ 7" "(2::real) powr of_int (- 7 + 1) = 1 / 2 ^ 6"
    using pow2_neg[of 7] pow2_neg[of 6] by simp_all
  have b: "2 powr of_int (- 7) \<le> (1 / 100 :: real)" "(1 / 100 :: real) < 2 powr of_int (- 7 + 1)"
    unfolding p by simp_all
  note r = round64_normal(1,2)[OF b _ _ refl]
  have "round64 (1 / 100) = Finite (of_int (round_even (1 / 100 / 2 powr of_int (- 7 - 52))) * 2 powr of_int (- 7 - 52))"
    by (rule r(1)) simp_all
  moreover have "(1 / 128 :: real) \<le> of_int (round_even (1 / 100 / 2 powr of_int (- 7 - 52))) * 2 powr of_int (- 7 - 52)"
    using r(2) unfolding p by simp
  ultimately show ?thesis by simp
qed

lemma dt_max_16:
  "\<exists>dv. double_div (Finite 16) (Finite 100) = Finite dv \<and> 1 / 8 \<le> dv"
proof -
  have p: "(2::real) powr of_int (- 3) = 1 / 2 ^ 3" "(2::real) powr of_int (- 3 + 1) = 1 / 2 ^ 2"
    using pow2_neg[of 3] pow2_neg[of 2] by simp_all
  have b: "2 powr of_int (- 3) \<le> (16 / 100 :: real)" "(16 / 100 :: real) < 2 powr of_int (- 3 + 1)"
    unfolding p by simp_all
  note r = round64_normal(1,2)[OF b _ _ refl]
  have "round64 (16 / 100) = Finite (of_int (round_even (16 / 100 / 2 powr of_int (- 3 - 52))) * 2 powr of_int (- 3 - 52))"
    by (rule r(1)) simp_all
  moreover have "(1 / 8 :: real) \<le> of_int (round_even (16 / 100 / 2 powr of_int (- 3 - 52))) * 2 powr of_int (- 3 - 52)"
    using r(2) unfolding p by simp
  ultimately show ?thesis by simp
qed

lemma p8: "(2::real) powr of_int (- 8) = 1 / 2 ^ 8" "(2::real) powr of_int (- 8 + 1) = 1 / 2 ^ 7"
  "(2::real) powr of_int (- 8 - 52) = 1 / 2 ^ 60"
  using pow2_neg[of 8] pow2_neg[of 7] pow2_neg[of 60] by simp_all

lemma dt_max_045:
  "double_div (Finite (8106479329266893 / 2 ^ 54)) (Finite 100) = Finite (5188146770730812 / 2 ^ 60)"
proof -
  let ?x = "8106479329266893 / 2 ^ 54 / 100 :: real"
  have b: "2 powr of_int (- 8) \<le> ?x" "?x < 2 powr of_int (- 8 + 1)"
    unfolding p8 by simp_all
  have r: "round_even (?x / (1 / 2 ^ 60)) = 5188146770730812"
    by (simp add: round_even_def)
  have "round64 ?x = Finite (of_int (round_even (?x / (1 / 2 ^ 60))) * (1 / 2 ^ 60))"
    by (rule round64_normal(1)[OF b _ _ p8(3)[symmetric]]) simp_all
  then show ?thesis
    unfolding r by simp
qed

lemma p6: "(2::real) powr of_int 6 = 2 ^ 6" "(2::real) powr of_int (6 + 1) = 2 ^ 7"
  "(2::real) powr of_int (6 - 52) = 1 / 2 ^ 46"
  using pow2_pos[of 6] pow2_pos[of 7] pow2_neg[of 46] by simp_all

lemma quotient_045:
  "double_div (Finite (8106479329266893 / 2 ^ 54)) (Finite (5188146770730812 / 2 ^ 60)) =
     Finite (7036874417766399 / 2 ^ 46)"
proof -
  let ?x = "8106479329266893 / 2 ^ 54 / (5188146770730812 / 2 ^ 60) :: real"
  have b: "2 powr of_int 6 \<le> ?x" "?x < 2 powr of_int (6 + 1)"
    unfolding p6 by simp_all
  have r: "round_even (?x / (1 / 2 ^ 46)) = 7036874417766399"
    by (simp add: round_even_def)
  have "round64 ?x = Finite (of_int (round_even (?x / (1 / 2 ^ 46))) * (1 / 2 ^ 46))"
    by (rule round64_normal(1)[OF b _ _ p6(3)[symmetric]]) simp_all
  then show ?thesis
    unfolding r by simp
qed

lemma huge_spatial_step:
  "\<exists>v. double_div (Finite (2 ^ 522)) (Finite 100) = Finite v \<and> 2 ^ 515 \<le> v"
proof -
  have p: "(2::real) powr of_int 515 = 2 ^ 515" "(2::real) powr of_int (515 + 1) = 2 ^ 516"
    using pow2_pos[of 515] pow2_pos[of 516] by simp_all
  have b: "2 powr of_int 515 \<le> (2 ^ 522 / 100 :: real)" "(2 ^ 522 / 100 :: real) < 2 powr of_int (515 + 1)"
    unfolding p by simp_all
  note r = round64_normal(1,2)[OF b _ _ refl]
  let ?v = "of_int (round_even (2 ^ 522 / 100 / 2 powr of_int (515 - 52))) * 2 powr of_int (515 - 52) :: real"
  have "round64 (2 ^ 522 / 100) = Finite ?v"
    by (rule r(1)) simp_all
  then have e: "double_div (Finite (2 ^ 522)) (Finite 100) = Finite ?v"
    by simp
  have "(2 powr of_int 515 :: real) \<le> ?v"
    by (rule r(2)) simp_all
  then have "(2 ^ 515 :: real) \<le> ?v"
    unfolding p .
  with e show ?thesis by blast
qed

lemma square_overflows:
  fixes v :: real
  assumes "2 ^ 515 \<le> v"
  shows "double_mul (Finite v) (Finite v) = PInf"
proof -
  have "(2::real) ^ 1024 \<le> 2 ^ 1030" by (rule power_increasing) simp_all
  also have "\<dots> = 2 ^ 515 * 2 ^ 515" by (simp only: power_add[symmetric]) simp
  also have "\<dots> \<le> v * v" using assms by (intro mult_mono) simp_all
  finally show ?thesis by (simp add: round64_overflow)
qed

lemma huge_denominator:
  "double_mul (double_mul (double_mul (Finite (1 / 2)) (Finite (1 / 2))) (Finite (2 ^ 522))) (Finite (2 ^ 522)) = PInf"
proof -
  have a: "double_mul (Finite (1 / 2)) (Finite (1 / 2)) = Finite (1 / 4)"
    using round64_inv_pow[of 2] by simp
  have "(1 / 4 :: real) * 2 ^ 522 = 2 ^ 520" by simp
  then have b: "double_mul (Finite (1 / 4)) (Finite (2 ^ 522)) = Finite (2 ^ 520)"
    using round64_pow[of 520] by (simp del: power_numeral)
  have "(2::real) ^ 1024 \<le> 2 ^ 1042" by (rule power_increasing) simp_all
  also have "\<dots> = 2 ^ 520 * 2 ^ 522" by (simp only: power_add[symmetric]) simp
  finally have "double_mul (Finite (2 ^ 520)) (Finite (2 ^ 522)) = PInf"
    by (simp add: round64_overflow del: power_numeral)
  with a b show ?thesis by (simp only:)
qed

lemma sizing_example_configured:
  "configureMode_ieee 3 64 sizing_example =
     Inr (sizing_example\<lparr>N_ieee := 64, dS_ieee := Finite 8, dt_ieee := Finite (1 / 1024), M_ieee := 1025\<rparr>)"
  "double_div (Finite 1)
         (std_min_ieee (stability_bound_ieee (double_div (Finite 512) (Finite (of_int (configured_N 3 64))))
            (Finite (1 / 2)) (Finite 512)) (double_div (Finite 1) (Finite 100))) = Finite 1024"
proof -
  obtain dv where dv: "double_div (Finite 1) (Finite 100) = Finite dv" "1 / 128 \<le> dv"
    using dt_max_1 by blast
  have dS: "double_div (Finite 512) (Finite 64) = Finite 8"
    by (simp add: round64_values)
  have m: "std_min_ieee (Finite (1 / 1024)) (Finite dv) = Finite (1 / 1024)"
    using dv(2) by (simp add: std_min_ieee_def)
  have q: "double_div (Finite 1) (Finite (1 / 1024)) = Finite 1024"
    by (simp add: round64_values)
  show "double_div (Finite 1)
         (std_min_ieee (stability_bound_ieee (double_div (Finite 512) (Finite (of_int (configured_N 3 64))))
            (Finite (1 / 2)) (Finite 512)) (double_div (Finite 1) (Finite 100))) = Finite 1024"
    by (simp only: configured_N_def dS bound_sizing_example dv(1) m q of_int_numeral if_False if_True
        simp_thms rel_simps)
  have f: "sigma_ieee sizing_example = Finite (1 / 2)" "Smax_ieee sizing_example = Finite 512"
    "T_ieee sizing_example = Finite 1"
    by (simp_all add: sizing_example_def)
  have c: "static_cast_int_ieee (Finite 1024) = Inr 1024" "int_add 1024 1 = Inr 1025"
    by (simp_all add: static_cast_int_def int_add_def INT_MAX_def INT_MIN_def)
  show "configureMode_ieee 3 64 sizing_example =
     Inr (sizing_example\<lparr>N_ieee := 64, dS_ieee := Finite 8, dt_ieee := Finite (1 / 1024), M_ieee := 1025\<rparr>)"
    unfolding configureMode_ieee_def Let_def f
    by (simp only: configured_N_def dS bound_sizing_example dv(1) m q c of_int_numeral if_False if_True
        simp_thms rel_simps sum.case)
qed

lemma round64_number: "round64 x \<noteq> NaN"
  by (simp add: round64_def Let_def)

lemma round64_in_range:
  assumes "2 powr (- 1022) \<le> x" and "x \<le> 2 powr 1022"
  shows "\<exists>y. round64 x = Finite y \<and> x / 2 \<le> y \<and> y \<le> 2 * x"
proof -
  define c :: real where "c = 1 / 2 ^ 53"
  have c: "0 < c" "c \<le> 1 / 2" by (simp_all add: c_def)
  have x: "0 < x" using assms(1) by (rule powr_le_pos)
  note r = round_real_relative[OF assms(1), folded c_def]
  have "x * (1 / 2) \<le> x * (1 - c)"
    using x c by (intro mult_left_mono) simp_all
  with r(1) have lo: "x / 2 \<le> round_real x" by simp
  have "x * (1 + c) \<le> x * 2"
    using x c by (intro mult_left_mono) simp_all
  with r(2) have hi: "round_real x \<le> 2 * x" by simp
  have "2 * x \<le> 2 powr 1 * 2 powr 1022" using assms(2) by simp
  also have "\<dots> = 2 powr (1 + 1022)" by (rule powr_add[symmetric])
  also have "\<dots> < 2 powr of_int 1024" by (simp only: powr_less_cancel_iff)
  finally have "2 * x < 2 ^ 1024" unfolding pow_1024 .
  with hi have "round_real x < 2 ^ 1024" by (rule le_less_trans)
  moreover have "0 \<le> round_real x" using lo x by linarith
  ultimately have "round64 x = Finite (round_real x)" by (intro round64_finite)
  with lo hi show ?thesis by blast
qed

lemma double_mul_number:
  assumes "not_negative a" and "a \<noteq> NaN" and "0 < X"
  shows "not_negative (double_mul a (Finite X)) \<and> double_mul a (Finite X) \<noteq> NaN"
  using assms by (cases a) (simp_all add: not_negative_round64 round64_number)

lemma double_div_number:
  assumes "0 < p" and "d \<noteq> NaN"
  shows "double_div (Finite p) d \<noteq> NaN"
  using assms by (cases d) (simp_all add: round64_number)

lemma stability_bound_number:
  fixes a b m X sg :: real
  assumes "0 < sg" and "2 powr a \<le> X" and "X \<le> 2 powr b"
    and "1 \<le> n" and "of_int n \<le> 2 powr m"
    and "- 1022 \<le> 2 * (a - m - 1)" and "2 * (b + 1) \<le> 1022"
  shows "stability_bound_ieee (double_div (Finite X) (Finite (of_int n))) (Finite sg) (Finite X) \<noteq> NaN"
proof -
  have X: "0 < X" using assms(2) by (rule powr_le_pos)
  have n: "(1::real) \<le> of_int n" using assms(4) by simp
  let ?x = "X / of_int n"
  have "2 powr (a - m) = 2 powr a / 2 powr m" by (rule powr_diff)
  also have "\<dots> \<le> X / of_int n"
    using assms(2,5) n X by (intro frac_le) simp_all
  finally have xl: "2 powr (a - m) \<le> ?x" .
  have "?x \<le> X / 1" using n X by (intro divide_left_mono) simp_all
  then have xu: "?x \<le> 2 powr b" using assms(3) by simp
  have "(2::real) powr (- 1022) \<le> 2 powr (a - m)"
    using assms(6) by (simp only: powr_le_cancel_iff) simp
  then have x1: "2 powr (- 1022) \<le> ?x" using xl by (rule order_trans)
  have "(2::real) powr b \<le> 2 powr 1022"
    using assms(7) by (simp only: powr_le_cancel_iff) simp
  with xu have x2: "?x \<le> 2 powr 1022" by (rule order_trans)
  obtain d where d: "round64 ?x = Finite d" "?x / 2 \<le> d" "d \<le> 2 * ?x"
    using round64_in_range[OF x1 x2] by blast
  have dS: "double_div (Finite X) (Finite (of_int n)) = Finite d"
    using n d(1) by simp
  have "2 powr (a - m - 1) = 2 powr (a - m) / 2 powr 1" by (rule powr_diff)
  also have "\<dots> \<le> ?x / 2" using xl by simp
  also note d(2)
  finally have dl: "2 powr (a - m - 1) \<le> d" .
  have "d \<le> 2 powr 1 * 2 powr b" using d(3) xu by simp
  also have "\<dots> = 2 powr (1 + b)" by (rule powr_add[symmetric])
  finally have du: "d \<le> 2 powr (b + 1)" by (simp only: add.commute)
  have d0: "0 < d" using dl by (rule powr_le_pos)
  have "2 powr (2 * (a - m - 1)) = 2 powr (a - m - 1) * 2 powr (a - m - 1)"
    by (simp only: mult_2 powr_add)
  also have "\<dots> \<le> d * d"
    using dl d0 by (intro mult_mono) simp_all
  finally have sl: "2 powr (2 * (a - m - 1)) \<le> d * d" .
  have "d * d \<le> 2 powr (b + 1) * 2 powr (b + 1)"
    using du d0 by (intro mult_mono) simp_all
  also have "\<dots> = 2 powr (2 * (b + 1))"
    by (simp only: mult_2 powr_add)
  finally have su: "d * d \<le> 2 powr (2 * (b + 1))" .
  have "(2::real) powr (- 1022) \<le> 2 powr (2 * (a - m - 1))"
    using assms(6) by (simp only: powr_le_cancel_iff)
  then have s1: "2 powr (- 1022) \<le> d * d" using sl by (rule order_trans)
  have "(2::real) powr (2 * (b + 1)) \<le> 2 powr 1022"
    using assms(7) by (simp only: powr_le_cancel_iff)
  with su have s2: "d * d \<le> 2 powr 1022" by (rule order_trans)
  obtain p where p: "round64 (d * d) = Finite p" "d * d / 2 \<le> p"
    using round64_in_range[OF s1 s2] by blast
  have "0 < d * d / 2" using d0 by simp
  then have p0: "0 < p" using p(2) by (rule less_le_trans)
  have sq: "double_mul (Finite d) (Finite d) = Finite p" using p(1) by simp
  have s: "not_negative (double_mul (Finite sg) (Finite sg)) \<and> double_mul (Finite sg) (Finite sg) \<noteq> NaN"
    using assms(1) by (intro double_mul_number) simp_all
  then have "not_negative (double_mul (double_mul (Finite sg) (Finite sg)) (Finite X)) \<and>
             double_mul (double_mul (Finite sg) (Finite sg)) (Finite X) \<noteq> NaN"
    using X by (intro double_mul_number) simp_all
  then have "not_negative (double_mul (double_mul (double_mul (Finite sg) (Finite sg)) (Finite X)) (Finite X)) \<and>
             double_mul (double_mul (double_mul (Finite sg) (Finite sg)) (Finite X)) (Finite X) \<noteq> NaN"
    using X by (intro double_mul_number) simp_all
  then show ?thesis
    unfolding stability_bound_ieee_def dS sq using p0 by (intro double_div_number) simp_all
qed

lemma stability_bound_ordinary_strike:
  assumes "0 < sg" and "2 powr (- 400) \<le> X" and "X \<le> 2 powr 400"
    and "0 < n" and "n \<le> 2147483647"
  shows "stability_bound_ieee (double_div (Finite X) (Finite (of_int n))) (Finite sg) (Finite X) \<noteq> NaN"
proof -
  have "(of_int n :: real) \<le> of_int 2147483647" using assms(5) by (simp only: of_int_le_iff)
  also have "\<dots> \<le> 2 powr 31" by simp
  finally have n: "(of_int n :: real) \<le> 2 powr 31" .
  have n1: "1 \<le> n" using assms(4) by simp
  show ?thesis
    using assms(1-3) n1 n by (rule stability_bound_number) simp_all
qed

section \<open>The claims\<close>

text \<open>
  C1, as amended. For every parameter set with a volatility in \<open>(0, 1]\<close>, a positive
  maturity and a positive price ceiling, and every number \<open>N > 0\<close> of spatial steps, for
  which the stability bound \<open>dS\<^sup>2 / (sigma\<^sup>2 \<times> Smax\<^sup>2)\<close> that the program computes in
  binary64 arithmetic is not NaN: the \<open>dS\<close> and \<open>dt\<close> that grid sizing computes satisfy
  \<open>dt \<le> dS\<^sup>2 / (sigma\<^sup>2 \<times> Smax\<^sup>2)\<close>, every state that grid sizing produces carries them,
  and \<^verbatim>\<open>checkStability\<close> returns true on it, so the branch that reports a violated
  stability condition is not taken. The bound is not NaN whenever the price ceiling lies
  between \<open>2 ^ (- 400)\<close> and \<open>2 ^ 400\<close>. The hypothesis on the bound is needed: with the
  strike \<open>2 ^ 520\<close> both \<open>dS \<times> dS\<close> and \<open>sigma \<times> sigma \<times> Smax \<times> Smax\<close> overflow to
  infinity, the bound is NaN, \<^verbatim>\<open>std::min\<close> returns it as \<open>dt\<close>, and the comparison of
  \<^verbatim>\<open>checkStability\<close> is false.
\<close>

theorem stability_unless_nan:
  assumes "sigma_ieee s = Finite sg" and "0 < sg" and "sg \<le> 1"
    and "T_ieee s = Finite t" and "0 < t"
    and "Smax_ieee s = Finite X" and "0 < X"
    and "0 < configured_N mode Nin" and "configured_N mode Nin \<le> INT_MAX"
  shows "(let dS' = double_div (Smax_ieee s) (Finite (of_int (configured_N mode Nin)));
              bound = stability_bound_ieee dS' (sigma_ieee s) (Smax_ieee s);
              dt' = std_min_ieee bound (double_div (T_ieee s) (Finite 100))
          in (2 powr (- 400) \<le> X \<and> X \<le> 2 powr 400 \<longrightarrow> bound \<noteq> NaN) \<and>
             (bound \<noteq> NaN \<longrightarrow>
                double_le dt' bound \<and>
                (\<forall>s'. configureMode_ieee mode Nin s = Inr s' \<longrightarrow>
                   dS_ieee s' = dS' \<and> dt_ieee s' = dt' \<and>
                   double_le (dt_ieee s')
                     (stability_bound_ieee (dS_ieee s') (sigma_ieee s') (Smax_ieee s')) \<and>
                   checkStability_ieee s')))"
proof -
  let ?dS = "double_div (Smax_ieee s) (Finite (of_int (configured_N mode Nin)))"
  let ?b = "stability_bound_ieee ?dS (sigma_ieee s) (Smax_ieee s)"
  let ?dt = "std_min_ieee ?b (double_div (T_ieee s) (Finite 100))"
  have n: "configured_N mode Nin \<le> 2147483647"
    using assms(9) by (simp add: INT_MAX_def)
  have number: "?b \<noteq> NaN" if "2 powr (- 400) \<le> X" and "X \<le> 2 powr 400"
    unfolding assms(1,6) using assms(2) that assms(8) n by (rule stability_bound_ordinary_strike)
  have stable: "double_le ?dt ?b \<and>
      (\<forall>s'. configureMode_ieee mode Nin s = Inr s' \<longrightarrow>
         dS_ieee s' = ?dS \<and> dt_ieee s' = ?dt \<and>
         double_le (dt_ieee s') (stability_bound_ieee (dS_ieee s') (sigma_ieee s') (Smax_ieee s')) \<and>
         checkStability_ieee s')"
    if b: "?b \<noteq> NaN"
  proof -
    have le: "double_le ?dt ?b"
      using b by (rule std_min_ieee_le)
    have "dS_ieee s' = ?dS \<and> dt_ieee s' = ?dt \<and>
          double_le (dt_ieee s') (stability_bound_ieee (dS_ieee s') (sigma_ieee s') (Smax_ieee s')) \<and>
          checkStability_ieee s'"
      if "configureMode_ieee mode Nin s = Inr s'" for s'
      using configureMode_ieee_fields[OF that] le by (simp add: checkStability_ieee_def)
    with le show ?thesis by blast
  qed
  from number stable show ?thesis
    unfolding Let_def by blast
qed

theorem stability_unless_nan_witness:
  "2 powr (- 400) \<le> (512 :: real) \<and> (512 :: real) \<le> 2 powr 400 \<and>
   stability_bound_ieee (Finite 8) (Finite (1 / 2)) (Finite 512) = Finite (1 / 1024) \<and>
   configureMode_ieee 3 64 sizing_example =
     Inr (sizing_example\<lparr>N_ieee := 64, dS_ieee := Finite 8, dt_ieee := Finite (1 / 1024), M_ieee := 1025\<rparr>) \<and>
   double_le (Finite (1 / 1024)) (Finite (1 / 1024)) \<and>
   checkStability_ieee
     (sizing_example\<lparr>N_ieee := 64, dS_ieee := Finite 8, dt_ieee := Finite (1 / 1024), M_ieee := 1025\<rparr>)"
proof -
  have p9: "(2::real) powr 9 = 512" by simp
  have "(2::real) powr (- 400) \<le> 2 powr 9" by (rule powr_mono) simp_all
  then have r1: "2 powr (- 400) \<le> (512 :: real)" unfolding p9 .
  have "(2::real) powr 9 \<le> 2 powr 400" by (rule powr_mono) simp_all
  then have r2: "(512 :: real) \<le> 2 powr 400" unfolding p9 .
  have h: "sigma_ieee sizing_example = Finite (1 / 2)" "(0::real) < 1 / 2" "(1 / 2 :: real) \<le> 1"
    "T_ieee sizing_example = Finite 1" "(0::real) < 1"
    "Smax_ieee sizing_example = Finite 512" "(0::real) < 512" "0 < configured_N 3 64"
    "configured_N 3 64 \<le> INT_MAX"
    by (simp_all add: sizing_example_def configured_N_def INT_MAX_def)
  have nn: "stability_bound_ieee (double_div (Smax_ieee sizing_example) (Finite (of_int (configured_N 3 64))))
       (sigma_ieee sizing_example) (Smax_ieee sizing_example) \<noteq> NaN"
    using stability_unless_nan[OF h] r1 r2 unfolding Let_def by blast
  have k: "checkStability_ieee
     (sizing_example\<lparr>N_ieee := 64, dS_ieee := Finite 8, dt_ieee := Finite (1 / 1024), M_ieee := 1025\<rparr>)"
    using stability_unless_nan[OF h] nn sizing_example_configured(1)
    unfolding Let_def by blast
  have "double_le (Finite (1 / 1024)) (Finite (1 / 1024))" by simp
  with k r1 r2 sizing_example_configured(1) show ?thesis
    by (simp only: bound_sizing_example simp_thms)
qed

theorem stability_unless_nan_counterexample:
  "(let dS' = double_div (Smax_ieee huge_strike) (Finite (of_int (configured_N 2 0)));
        bound = stability_bound_ieee dS' (sigma_ieee huge_strike) (Smax_ieee huge_strike);
        dt' = std_min_ieee bound (double_div (T_ieee huge_strike) (Finite 100))
    in bound = NaN \<and> dt' = NaN \<and> \<not> double_le dt' bound \<and>
       \<not> checkStability_ieee (huge_strike\<lparr>N_ieee := 100, dS_ieee := dS', dt_ieee := dt'\<rparr>)) \<and>
   configureMode_ieee 2 0 huge_strike = Inl CastOverflow"
proof -
  obtain v where v: "double_div (Finite (2 ^ 522)) (Finite 100) = Finite v" "2 ^ 515 \<le> v"
    using huge_spatial_step by blast
  have b: "stability_bound_ieee (Finite v) (Finite (1 / 2)) (Finite (2 ^ 522)) = NaN"
    unfolding stability_bound_ieee_def square_overflows[OF v(2)] huge_denominator by simp
  have m: "std_min_ieee NaN d = NaN" for d
    by (simp add: std_min_ieee_def)
  have f: "sigma_ieee huge_strike = Finite (1 / 2)" "Smax_ieee huge_strike = Finite (2 ^ 522)"
    "T_ieee huge_strike = Finite 1" "configured_N 2 0 = 100"
    by (simp_all add: huge_strike_def sizing_example_def configured_N_def del: power_numeral)
  have c: "configureMode_ieee 2 0 huge_strike = Inl CastOverflow"
    unfolding configureMode_ieee_def Let_def f of_int_numeral v(1) b m by simp
  have k: "\<not> checkStability_ieee (huge_strike\<lparr>N_ieee := 100, dS_ieee := Finite v, dt_ieee := NaN\<rparr>)"
    by (simp add: checkStability_ieee_def)
  show ?thesis
    unfolding Let_def f of_int_numeral v(1) b m using c k by simp
qed

text \<open>
  C2. The claim is that a spot price outside \<open>[0, Smax]\<close> is handled by clamping to the
  nearest grid edge, reading only entries inside the grid. The program does not do that:
  when \<open>j0 = floor (S0 / dS)\<close> exceeds \<open>N\<close>, the branch taken is \<^verbatim>\<open>U[j0]\<close>, an access
  outside the vector of \<open>N + 1\<close> entries. With the validated inputs call, spot 1000, strike
  100 (so \<open>Smax = 400\<close>), rate 0.05, volatility 0.2, maturity 1 and the fast mode
  (\<open>N = 100\<close>, \<open>dS = 4\<close>), \<open>j0 = 250\<close> and the run of \<^verbatim>\<open>main\<close> ends in that access.
\<close>

theorem spot_beyond_grid_out_of_bounds:
  "main_program dS0 dt0 [1, 1000, 100, 0.05, 0.2, 1] 2 0 = Some (Inl OutOfBounds)"
proof -
  let ?p = "\<lparr>type = 1, S0 = 1000, K = 100, r = 0.05, sigma = 0.2, T = 1\<rparr>"
  let ?s1 = "\<lparr>params = ?p, Smax = 400, N = 50, M = 2000, dS = dS0, dt = dt0, U = []\<rparr>"
  let ?s2 = "\<lparr>params = ?p, Smax = 400, N = 100, M = 401, dS = 4, dt = 0.0025, U = []\<rparr>"
  have i: "inputParameters [1, 1000, 100, 0.05, 0.2, 1]
             (FiniteDifferencePricer_init main_params dS0 dt0) = Some (?s1, [])"
    by (simp add: inputParameters_def FiniteDifferencePricer_init_def main_params_def)
  have c: "configureMode 2 0 ?s1 = Inr ?s2"
    by (simp add: configureMode_def configured_N_def std_min_def static_cast_int_def int_add_def
        INT_MAX_def INT_MIN_def Let_def)
  have st: "checkStability ?s2"
    by (simp add: checkStability_def)
  obtain u where u: "computeCallOptionPrice ?s2 = Inr (?s2\<lparr>U := u\<rparr>)" "int (length u) = N ?s2 + 1"
    using computeCallOptionPrice_result[of ?s2] by (auto simp: INT_MAX_def)
  have d: "displayResults (?s2\<lparr>U := u\<rparr>) = Inl OutOfBounds"
    using u(2) by (intro displayResults_out_of_range) (simp_all add: INT_MAX_def)
  show ?thesis
    by (simp only: main_program_def run_def i c st u(1) d option.case prod.case sum.case
        not_True_eq_False if_False)
qed



text \<open>
  C4. After every iteration of the solver both boundary conditions hold on the current
  grid, for a grid with \<open>N > 0\<close> spatial steps: the value at index \<open>0\<close> is \<open>0\<close> and the
  value at index \<open>N\<close> is \<open>Smax - K \<times> exp (- r \<times> tau)\<close>, where \<open>tau = T - (m - 1) \<times> dt\<close>
  and \<open>m = M - k\<close> is the loop counter of iteration \<open>k + 1\<close>.
\<close>

theorem boundary_values:
  assumes "solver_after k s = Inr s'" and "0 < N s"
  shows "\<exists>s''. solver_after (Suc k) s = Inr s'' \<and>
           load (U s'') 0 = Inr 0 \<and>
           load (U s'') (N s) =
             Inr (Smax s - K (params s) *
                    exp (- r (params s) * (T (params s) - of_int (M s - int k - 1) * dt s)))"
proof -
  obtain u where u: "s' = s\<lparr>U := u\<rparr>" "int (length u) = N s + 1"
    using solver_after_Inr[OF assms] by blast
  obtain u' where u': "time_step (M s - int k) s' = Inr (s'\<lparr>U := u'\<rparr>, U s')"
    "length u' = length (U s')" "u' ! 0 = 0"
    "u' ! nat (N s') = Smax s' - K (params s') *
        exp (- r (params s') * (T (params s') - of_int (M s - int k - 1) * dt s'))"
    using time_step_result[of s' "M s - int k"] assms(2) u by auto
  have "solver_after (Suc k) s = Inr (s'\<lparr>U := u'\<rparr>)"
    by (simp add: assms(1) u'(1))
  moreover have "load (U (s'\<lparr>U := u'\<rparr>)) 0 = Inr 0"
    using assms(2) u u'(2,3) by (simp add: load_def)
  moreover have "load (U (s'\<lparr>U := u'\<rparr>)) (N s) =
      Inr (Smax s - K (params s) *
             exp (- r (params s) * (T (params s) - of_int (M s - int k - 1) * dt s)))"
    using assms(2) u u'(2,4) by (simp add: load_def)
  ultimately show ?thesis by blast
qed

theorem boundary_values_witness:
  "\<exists>s' s''. solver_after 0 scenario_grid = Inr s' \<and>
      solver_after (Suc 0) scenario_grid = Inr s'' \<and>
      load (U s'') 0 = Inr 0 \<and> load (U s'') 100 = Inr 405"
proof -
  obtain u where u: "solver_after 0 scenario_grid = Inr (scenario_grid\<lparr>U := u\<rparr>)"
    using scenario_initial by blast
  have n: "0 < N scenario_grid"
    by (simp add: scenario_grid_def)
  from boundary_values[OF u n] u show ?thesis
    by (simp add: scenario_grid_def scenario_params_def)
qed

text \<open>
  C5. Immediately after initialisation and before any time step, the grid value at every
  index \<open>j\<close> from \<open>0\<close> to \<open>N\<close> is the call payoff
  \<open>max (j \<times> spatialStepSize - strike) 0\<close>. The initialisation completes for every
  \<open>N\<close> from \<open>-1\<close> up to, but not including, \<open>INT_MAX\<close>; whenever it completes,
  every read of an index in that range is inside the vector and gives the payoff.
\<close>

theorem initial_grid_is_payoff:
  "(- 1 \<le> N s \<and> N s < INT_MAX \<longrightarrow> (\<exists>s1 U_old. initial_grid s = Inr (s1, U_old))) \<and>
   (\<forall>s1 U_old j. initial_grid s = Inr (s1, U_old) \<and> 0 \<le> j \<and> j \<le> N s \<longrightarrow>
       load (U s1) j = Inr (max (of_int j * dS s - K (params s)) 0))"
proof (intro conjI impI allI)
  assume "- 1 \<le> N s \<and> N s < INT_MAX"
  then show "\<exists>s1 U_old. initial_grid s = Inr (s1, U_old)"
    using initial_grid_result[of s] by blast
next
  fix s1 U_old j
  assume a: "initial_grid s = Inr (s1, U_old) \<and> 0 \<le> j \<and> j \<le> N s"
  then have "- 1 \<le> N s \<and> N s < INT_MAX"
    using initial_grid_bounds by blast
  then obtain u where u: "initial_grid s = Inr (s\<lparr>U := u\<rparr>, replicate (nat (N s + 1)) 0)"
    "int (length u) = N s + 1"
    "\<And>j. 0 \<le> j \<and> j \<le> N s \<Longrightarrow> u ! nat j = call_payoff (of_int j * dS s) (K (params s))"
    using initial_grid_result[of s] by blast
  from a u(1) have "s1 = s\<lparr>U := u\<rparr>" by simp
  with a u(2,3) show "load (U s1) j = Inr (max (of_int j * dS s - K (params s)) 0)"
    by (simp add: load_def call_payoff_def std_max_def max_def)
qed

theorem initial_grid_is_payoff_witness:
  "\<exists>s1 U_old. initial_grid scenario_grid = Inr (s1, U_old) \<and> load (U s1) 100 = Inr 405
      \<and> load (U s1) 20 = Inr 0"
proof -
  have b: "- 1 \<le> N scenario_grid \<and> N scenario_grid < INT_MAX"
    by (simp add: scenario_grid_def INT_MAX_def)
  with initial_grid_is_payoff[of scenario_grid]
  obtain s1 U_old where i: "initial_grid scenario_grid = Inr (s1, U_old)"
    by blast
  have "load (U s1) 100 = Inr (max (of_int 100 * dS scenario_grid - K (params scenario_grid)) 0)"
    using initial_grid_is_payoff[of scenario_grid] i by (simp add: scenario_grid_def)
  moreover have "load (U s1) 20 = Inr (max (of_int 20 * dS scenario_grid - K (params scenario_grid)) 0)"
    using initial_grid_is_payoff[of scenario_grid] i by (simp add: scenario_grid_def)
  ultimately show ?thesis
    using i by (simp add: scenario_grid_def scenario_params_def)
qed

text \<open>
  C6. Given the call values that \<^verbatim>\<open>displayResults\<close> computes from the grid (price,
  Delta, Gamma): for a put (\<open>type = 0\<close>) the reported price is
  \<open>price_call - S0 + K \<times> exp (- r \<times> T)\<close> and the reported Delta is \<open>Delta_call - 1\<close>; Gamma
  passes through unchanged; for a call all three outputs are the call values unchanged.
\<close>

theorem put_call_adjust:
  assumes "static_cast_int (of_int \<lfloor>S0 (params s) / dS s\<rfloor>) = Inr j0"
    and "price_call s j0 (S0 (params s) / dS s - of_int j0) = Inr price_call_value"
    and "Delta_call s j0 = Inr delta_call_value" and "Gamma s j0 = Inr gam"
  shows "displayResults s =
     Inr (if type (params s) = 0
          then (price_call_value - S0 (params s) + K (params s) * exp (- r (params s) * T (params s)),
                delta_call_value - 1, gam)
          else (price_call_value, delta_call_value, gam))"
  using assms by (rule displayResults_unfold)

theorem put_call_adjust_witness:
  "displayResults small_put = Inr (0, - 0.125, 0.25) \<and>
   displayResults small_call = Inr (1.5, 0.875, 0.25)"
proof -
  have c: "static_cast_int (of_int \<lfloor>S0 (params small_call) / dS small_call\<rfloor>) = Inr 2"
    "price_call small_call 2 (S0 (params small_call) / dS small_call - of_int 2) = Inr 1.5"
    "Delta_call small_call 2 = Inr 0.875" "Gamma small_call 2 = Inr 0.25"
    by (simp_all add: small_call_def static_cast_int_def INT_MAX_def INT_MIN_def
        price_call_def Delta_call_def Gamma_def load_def)
  have p: "static_cast_int (of_int \<lfloor>S0 (params small_put) / dS small_put\<rfloor>) = Inr 2"
    "price_call small_put 2 (S0 (params small_put) / dS small_put - of_int 2) = Inr 1.5"
    "Delta_call small_put 2 = Inr 0.875" "Gamma small_put 2 = Inr 0.25"
    by (simp_all add: small_put_def small_call_def static_cast_int_def INT_MAX_def INT_MIN_def
        price_call_def Delta_call_def Gamma_def load_def)
  from put_call_adjust[OF c] put_call_adjust[OF p] show ?thesis
    by (simp add: small_put_def small_call_def)
qed

text \<open>
  C7. For every final grid (a vector of \<open>N + 1\<close> entries) and spot price, with
  \<open>idx = spot / spatialStepSize\<close>, \<open>j0 = floor idx\<close> and \<open>w = idx - j0\<close>: the call price is
  \<open>(1 - w) \<times> grid[j0] + w \<times> grid[j0 + 1]\<close> whenever \<open>0 \<le> j0 < N\<close>; Delta is the central
  difference \<open>(grid[j0 + 1] - grid[j0 - 1]) / (2 \<times> spatialStepSize)\<close> when \<open>0 < j0 < N\<close> and
  \<open>0\<close> otherwise; Gamma is the central second difference
  \<open>(grid[j0 + 1] - 2 \<times> grid[j0] + grid[j0 - 1]) / spatialStepSize\<^sup>2\<close> when \<open>0 < j0 < N\<close> and
  \<open>0\<close> otherwise. For a call with \<open>0 \<le> j0 < N\<close> these three numbers are what
  \<^verbatim>\<open>displayResults\<close> prints.
\<close>

theorem evaluation_formulas:
  assumes "int (length (U s)) = N s + 1"
  shows "(let idx = S0 (params s) / dS s;
              j0 = \<lfloor>idx\<rfloor>;
              w = idx - of_int j0;
              grid = U s;
              price = (1 - w) * grid ! nat j0 + w * grid ! nat (j0 + 1);
              delta = (if 0 < j0 \<and> j0 < N s
                       then (grid ! nat (j0 + 1) - grid ! nat (j0 - 1)) / (2 * dS s) else 0);
              gam = (if 0 < j0 \<and> j0 < N s
                     then (grid ! nat (j0 + 1) - 2 * grid ! nat j0 + grid ! nat (j0 - 1)) / (dS s)\<^sup>2
                     else 0)
          in (0 \<le> j0 \<and> j0 < N s \<longrightarrow> price_call s j0 w = Inr price) \<and>
             Delta_call s j0 = Inr delta \<and>
             Gamma s j0 = Inr gam \<and>
             (0 \<le> j0 \<and> j0 < N s \<and> N s \<le> INT_MAX \<and> type (params s) \<noteq> 0 \<longrightarrow>
                displayResults s = Inr (price, delta, gam)))"
proof -
  let ?idx = "S0 (params s) / dS s"
  let ?j0 = "\<lfloor>?idx\<rfloor>"
  let ?w = "?idx - of_int ?j0"
  have p: "price_call s ?j0 ?w = Inr ((1 - ?w) * U s ! nat ?j0 + ?w * U s ! nat (?j0 + 1))"
    if "0 \<le> ?j0" "?j0 < N s"
    using assms that by (rule price_call_interpolates)
  have c: "static_cast_int (of_int ?j0) = Inr ?j0" if "0 \<le> ?j0" "?j0 < N s" "N s \<le> INT_MAX"
  proof (rule static_cast_int_of_int)
    show "INT_MIN \<le> ?j0" unfolding INT_MIN_def using that(1) by linarith
    show "?j0 \<le> INT_MAX" using that(2,3) by linarith
  qed
  have d: "displayResults s =
      Inr ((1 - ?w) * U s ! nat ?j0 + ?w * U s ! nat (?j0 + 1),
           (if 0 < ?j0 \<and> ?j0 < N s
            then (U s ! nat (?j0 + 1) - U s ! nat (?j0 - 1)) / (2 * dS s) else 0),
           (if 0 < ?j0 \<and> ?j0 < N s
            then (U s ! nat (?j0 + 1) - 2 * U s ! nat ?j0 + U s ! nat (?j0 - 1)) / (dS s)\<^sup>2
            else 0))"
    if "0 \<le> ?j0" "?j0 < N s" "N s \<le> INT_MAX" "type (params s) \<noteq> 0"
    using displayResults_unfold[OF c[OF that(1,2,3)] p[OF that(1,2)]
        Delta_call_value[OF assms] Gamma_value[OF assms]] that(4)
    by simp
  show ?thesis
    unfolding Let_def
    using p d Delta_call_value[OF assms, of ?j0] Gamma_value[OF assms, of ?j0]
    by blast
qed

theorem evaluation_formulas_witness:
  "int (length (U small_call)) = N small_call + 1 \<and>
   price_call small_call 2 0.5 = Inr 1.5 \<and>
   Delta_call small_call 2 = Inr 0.875 \<and>
   Gamma small_call 2 = Inr 0.25 \<and>
   displayResults small_call = Inr (1.5, 0.875, 0.25)"
proof -
  have l: "int (length (U small_call)) = N small_call + 1"
    by (simp add: small_call_def)
  have f: "\<lfloor>S0 (params small_call) / dS small_call\<rfloor> = 2"
    by (simp add: small_call_def)
  from evaluation_formulas[OF l] show ?thesis
    unfolding Let_def f
    by (simp add: small_call_def INT_MAX_def)
qed

text \<open>
  C8, as amended. For every parameter set with a maturity \<open>T\<close> of at least \<open>2 ^ (- 1015)\<close>,
  a volatility in \<open>(0, 1]\<close> and a positive price ceiling, and every \<open>N > 0\<close>, for which the
  quotient \<open>T / dt\<close> that the program computes in binary64 arithmetic is a number \<open>q\<close> below
  \<open>2147483647\<close>: grid sizing sets \<open>dt\<close> to the \<^verbatim>\<open>std::min\<close> of the stability bound and
  \<open>T / 100\<close>, and \<open>M = floor q + 1\<close>; the quotient satisfies \<open>q \<ge> 100 \<times> (1 - 2 ^ (- 52))\<close>,
  and \<open>M \<ge> 100\<close>. The quotient need not reach \<open>100\<close>: for the maturity \<open>0.45\<close> the rounded
  \<open>T / 100\<close> lies above the exact one, \<open>T / dt\<close> rounds to \<open>100 - 2 ^ (- 46)\<close>, and \<open>M\<close> is
  \<open>100\<close>. And a quotient that does not fit the type \<^verbatim>\<open>int\<close> of \<open>M\<close> makes the
  conversion \<^verbatim>\<open>static_cast<int>(params.T / dt)\<close> undefined.
\<close>

theorem grid_sizing_in_doubles:
  assumes "T_ieee s = Finite t" and "2 powr (- 1015) \<le> t" and "t < 2 ^ 1024"
    and "sigma_ieee s = Finite sg" and "0 < sg" and "sg \<le> 1"
    and "Smax_ieee s = Finite X" and "0 < X"
    and "0 < configured_N mode Nin"
    and "double_div (Finite t)
           (std_min_ieee
              (stability_bound_ieee (double_div (Finite X) (Finite (of_int (configured_N mode Nin))))
                 (Finite sg) (Finite X))
              (double_div (Finite t) (Finite 100))) = Finite q"
    and "q < 2147483647"
  shows "\<exists>s'. configureMode_ieee mode Nin s = Inr s' \<and>
           N_ieee s' = configured_N mode Nin \<and>
           dS_ieee s' = double_div (Smax_ieee s) (Finite (of_int (N_ieee s'))) \<and>
           dt_ieee s' = std_min_ieee (stability_bound_ieee (dS_ieee s') (sigma_ieee s) (Smax_ieee s))
                          (double_div (T_ieee s) (Finite 100)) \<and>
           double_div (T_ieee s) (dt_ieee s') = Finite q \<and>
           M_ieee s' = \<lfloor>q\<rfloor> + 1 \<and>
           100 * (1 - 1 / 2 ^ 52) \<le> q \<and> 100 \<le> M_ieee s'"
proof -
  let ?n = "configured_N mode Nin"
  let ?dS = "double_div (Finite X) (Finite (of_int ?n))"
  let ?b = "stability_bound_ieee ?dS (Finite sg) (Finite X)"
  let ?dv = "round_real (t / 100)"
  have t: "0 < t" using assms(2) by (rule powr_le_pos)
  note d = dt_max_bounds[OF assms(2,3)]
  have nb: "not_negative ?b"
    using assms(8) by (intro not_negative_bound) simp
  have q': "double_div (Finite t) (std_min_ieee ?b (Finite ?dv)) = Finite q"
    using assms(10) unfolding d(1) .
  obtain tv where tv: "std_min_ieee ?b (Finite ?dv) = Finite tv" "0 < tv" "tv \<le> ?dv"
    using time_step_size_cases[OF nb d(2) q' t] by blast
  have "round64 (t / tv) = Finite q"
    using q' tv(2) unfolding tv(1) by simp
  then have qr: "q = round_real (t / tv)" by (rule round64_Finite_D)
  have lo: "100 * (1 - 1 / 2 ^ 52) \<le> q"
    using t tv(2,3) d(3) qr by (rule quotient_bound)
  have "(99::real) \<le> 100 * (1 - 1 / 2 ^ 52)" by simp
  with lo have q99: "99 \<le> q" by linarith
  then have fl: "99 \<le> \<lfloor>q\<rfloor>" by (simp add: le_floor_iff)
  have fu: "\<lfloor>q\<rfloor> < 2147483647" using assms(11) by (simp add: floor_less_iff)
  have cast: "static_cast_int_ieee (Finite q) = Inr \<lfloor>q\<rfloor>"
    using fl fu q99 by (simp add: static_cast_int_def INT_MAX_def INT_MIN_def)
  have add: "int_add \<lfloor>q\<rfloor> 1 = Inr (\<lfloor>q\<rfloor> + 1)"
    using fl fu by (simp add: int_add_def INT_MAX_def INT_MIN_def)
  let ?dt = "std_min_ieee ?b (double_div (Finite t) (Finite 100))"
  have "configureMode_ieee mode Nin s =
      Inr (s\<lparr>N_ieee := ?n, dS_ieee := ?dS, dt_ieee := ?dt, M_ieee := \<lfloor>q\<rfloor> + 1\<rparr>)"
    using assms(10) cast add
    by (simp add: configureMode_ieee_def Let_def assms(1,4,7))
  then show ?thesis
    using assms(10) lo fl by (simp add: assms(1,4,7))
qed

theorem grid_sizing_in_doubles_witness:
  "\<exists>s'. configureMode_ieee 3 64 sizing_example = Inr s' \<and>
      N_ieee s' = 64 \<and> dS_ieee s' = Finite 8 \<and> dt_ieee s' = Finite (1 / 1024) \<and>
      double_div (T_ieee sizing_example) (dt_ieee s') = Finite 1024 \<and> M_ieee s' = 1025 \<and>
      100 * (1 - 1 / 2 ^ 52) \<le> (1024 :: real)"
proof -
  have "(2::real) powr (- 1015) \<le> 2 powr 0" by (simp only: powr_le_cancel_iff)
  then have t1: "(2::real) powr (- 1015) \<le> 1" by simp
  have "(1::real) = 1 ^ 1024" by simp
  also have "\<dots> < 2 ^ 1024" by (rule power_strict_mono) simp_all
  finally have t2: "(1::real) < 2 ^ 1024" .
  have h: "T_ieee sizing_example = Finite 1"
    "sigma_ieee sizing_example = Finite (1 / 2)" "(0::real) < 1 / 2" "(1 / 2 :: real) \<le> 1"
    "Smax_ieee sizing_example = Finite 512" "(0::real) < 512" "0 < configured_N 3 64"
    by (simp_all add: sizing_example_def configured_N_def)
  have q: "(1024::real) < 2147483647" by simp
  from grid_sizing_in_doubles[OF h(1) t1 t2 h(2-7) sizing_example_configured(2) q]
  obtain s' where s': "configureMode_ieee 3 64 sizing_example = Inr s'"
    "double_div (T_ieee sizing_example) (dt_ieee s') = Finite 1024" "M_ieee s' = \<lfloor>1024 :: real\<rfloor> + 1"
    "100 * (1 - 1 / 2 ^ 52) \<le> (1024 :: real)"
    by blast
  from s'(1) have e: "s' = sizing_example\<lparr>N_ieee := 64, dS_ieee := Finite 8, dt_ieee := Finite (1 / 1024), M_ieee := 1025\<rparr>"
    unfolding sizing_example_configured(1) by simp
  have "N_ieee s' = 64" "dS_ieee s' = Finite 8" "dt_ieee s' = Finite (1 / 1024)" "M_ieee s' = 1025"
    unfolding e by simp_all
  with s'(1,2,4) show ?thesis by blast
qed

theorem grid_sizing_in_doubles_counterexample:
  "configureMode_ieee 3 32768 long_maturity = Inl CastOverflow \<and>
   (\<exists>s'. configureMode_ieee 3 16 maturity_045 = Inr s' \<and>
      dt_ieee s' = double_div (T_ieee maturity_045) (Finite 100) \<and>
      double_div (T_ieee maturity_045) (dt_ieee s') = Finite (7036874417766399 / 2 ^ 46) \<and>
      7036874417766399 / 2 ^ 46 < (100 :: real) \<and> M_ieee s' = 100)"
proof -
  have c1: "configureMode_ieee 3 32768 long_maturity = Inl CastOverflow"
  proof -
    obtain dv where dv: "double_div (Finite 16) (Finite 100) = Finite dv" "1 / 8 \<le> dv"
      using dt_max_16 by blast
    have f: "sigma_ieee long_maturity = Finite (1 / 2)" "Smax_ieee long_maturity = Finite 512"
      "T_ieee long_maturity = Finite 16"
      by (simp_all add: long_maturity_def sizing_example_def)
    have dS: "double_div (Finite 512) (Finite 32768) = Finite (1 / 64)"
      by (simp add: round64_values)
    have m: "std_min_ieee (Finite (1 / 268435456)) (Finite dv) = Finite (1 / 268435456)"
      using dv(2) by (simp add: std_min_ieee_def)
    have q: "double_div (Finite 16) (Finite (1 / 268435456)) = Finite 4294967296"
      by (simp add: round64_values)
    have c: "static_cast_int_ieee (Finite 4294967296) = Inl CastOverflow"
      by (simp add: static_cast_int_def INT_MAX_def INT_MIN_def)
    show ?thesis
      unfolding configureMode_ieee_def Let_def f
      by (simp only: configured_N_def dS bound_sizing_example dv(1) m q c of_int_numeral if_False
          if_True simp_thms rel_simps sum.case)
  qed
  let ?T = "Finite (8106479329266893 / 2 ^ 54)"
  let ?d = "Finite (5188146770730812 / 2 ^ 60)"
  let ?s' = "maturity_045\<lparr>N_ieee := 16, dS_ieee := Finite 32, dt_ieee := ?d, M_ieee := 100\<rparr>"
  have f: "sigma_ieee maturity_045 = Finite (1 / 2)" "Smax_ieee maturity_045 = Finite 512"
    "T_ieee maturity_045 = ?T"
    by (simp_all add: maturity_045_def sizing_example_def)
  have dS: "double_div (Finite 512) (Finite 16) = Finite 32"
    by (simp add: round64_values)
  have m: "std_min_ieee (Finite (1 / 64)) ?d = ?d"
    by (simp add: std_min_ieee_def)
  have c: "static_cast_int_ieee (Finite (7036874417766399 / 2 ^ 46)) = Inr 99" "int_add 99 1 = Inr 100"
    by (simp_all add: static_cast_int_def int_add_def INT_MAX_def INT_MIN_def)
  have c2: "configureMode_ieee 3 16 maturity_045 = Inr ?s'"
    unfolding configureMode_ieee_def Let_def f
    by (simp only: configured_N_def dS bound_sizing_example dt_max_045 m quotient_045 c of_int_numeral
        if_False if_True simp_thms rel_simps sum.case)
  have "dt_ieee ?s' = double_div (T_ieee maturity_045) (Finite 100)"
    unfolding f dt_max_045 by simp
  moreover have "double_div (T_ieee maturity_045) (dt_ieee ?s') = Finite (7036874417766399 / 2 ^ 46)"
    using quotient_045 unfolding f by simp
  moreover have "7036874417766399 / 2 ^ 46 < (100 :: real)" by simp
  moreover have "M_ieee ?s' = 100" by simp
  ultimately show ?thesis
    using c1 c2 by blast
qed

text \<open>
  C9, as amended. For every \<open>N\<close> with \<open>0 < N < INT_MAX\<close> the solver creates both vectors
  with \<open>N + 1\<close> entries, no access leaves a vector (the result is not an error), and the
  solver returns, after exactly \<open>M\<close> iterations, a grid of \<open>N + 1\<close> entries. For
  \<open>N = INT_MAX\<close> the length \<open>N + 1\<close> overflows the type \<^verbatim>\<open>int\<close>: with a volatility
  of 0.00001 grid sizing accepts \<open>N = INT_MAX\<close> in the custom mode, and the run ends in that
  overflow.
\<close>

theorem solver_grid_size:
  assumes "0 < N s" and "N s < INT_MAX"
  shows "\<exists>s1 U_old s'. initial_grid s = Inr (s1, U_old) \<and>
           int (length (U s1)) = N s + 1 \<and> int (length U_old) = N s + 1 \<and>
           computeCallOptionPrice s = solver_after (nat (M s)) s \<and>
           computeCallOptionPrice s = Inr s' \<and> int (length (U s')) = N s + 1"
proof -
  obtain u where u: "initial_grid s = Inr (s\<lparr>U := u\<rparr>, replicate (nat (N s + 1)) 0)"
    "int (length u) = N s + 1"
    using initial_grid_result[of s] assms by auto
  obtain u' where u': "solver_after (nat (M s)) s = Inr (s\<lparr>U := u'\<rparr>)" "int (length u') = N s + 1"
    using solver_after_result[OF assms] by blast
  show ?thesis
    using u u' assms(1) by (simp add: computeCallOptionPrice_steps)
qed

theorem solver_grid_size_witness:
  "\<exists>s'. computeCallOptionPrice scenario_grid = Inr s' \<and> length (U s') = 101 \<and>
      computeCallOptionPrice scenario_grid = solver_after 401 scenario_grid"
proof -
  have n: "0 < N scenario_grid" "N scenario_grid < INT_MAX"
    by (simp_all add: scenario_grid_def INT_MAX_def)
  from solver_grid_size[OF n] show ?thesis
    by (auto simp: scenario_grid_def)
qed

theorem solver_grid_size_counterexample:
  "validated_inputs [1, 100, 135, 0.05, 0.00001, 1] \<and> 0 < configured_N 3 2147483647 \<and>
   main_program 0 0 [1, 100, 135, 0.05, 0.00001, 1] 3 2147483647 = Some (Inl IntOverflow)"
proof -
  let ?cin = "[1, 100, 135, 0.05, 0.00001, 1] :: real list"
  let ?p = "\<lparr>type = 1, S0 = 100, K = 135, r = 0.05, sigma = 0.00001, T = 1\<rparr>"
  let ?s1 = "\<lparr>params = ?p, Smax = 540, N = 50, M = 2000, dS = 0, dt = 0, U = []\<rparr>"
  have v: "validated_inputs ?cin"
    by (simp add: validated_inputs_def)
  have i: "inputParameters ?cin (FiniteDifferencePricer_init main_params 0 0) = Some (?s1, [])"
    by (simp add: inputParameters_def FiniteDifferencePricer_init_def main_params_def)
  obtain s2 where c: "configureMode 3 2147483647 ?s1 = Inr s2" and n: "N s2 = 2147483647"
    by (simp add: configureMode_def configured_N_def std_min_def static_cast_int_def int_add_def
        INT_MAX_def INT_MIN_def Let_def)
  have st: "checkStability s2"
    using c by (rule configureMode_stable)
  have o: "computeCallOptionPrice s2 = Inl IntOverflow"
    by (simp add: computeCallOptionPrice_def initial_grid_def int_add_def INT_MAX_def INT_MIN_def n)
  have "main_program 0 0 ?cin 3 2147483647 = Some (Inl IntOverflow)"
    by (simp only: main_program_def run_def i c st o option.case prod.case sum.case
        not_True_eq_False if_False)
  with v show ?thesis
    by (simp add: configured_N_def)
qed




end
